theory Spec2Isabelle
  imports Complex_Main "HOL-Library.Word"
begin

section \<open>Output path and header-variant flag (single_slice.py, lines 92-96)\<close>

text \<open>
  Python's \<open>str.rfind\<close> for a single character: the index of the last occurrence,
  or \<open>-1\<close> when there is none.
\<close>

definition rfind :: "string \<Rightarrow> char \<Rightarrow> int" where
  "rfind p c =
     (case filter (\<lambda>i. p ! i = c) (rev [0..<length p]) of
        [] \<Rightarrow> - 1
      | i # _ \<Rightarrow> int i)"

text \<open>
  The loop of \<open>genericpath._splitext\<close> that skips the leading dots of the file name:
  it answers whether a character other than the dot stands in \<open>p[k:d]\<close>.
\<close>

function has_stem :: "string \<Rightarrow> nat \<Rightarrow> nat \<Rightarrow> bool" where
  "has_stem p k d =
     (if k < d then (if p ! k \<noteq> CHR ''.'' then True else has_stem p (Suc k) d)
      else False)"
  by pat_completeness auto
termination
  by (relation "measure (\<lambda>(p, k, d). d - k)") auto

declare has_stem.simps [simp del]

text \<open>\<open>os.path.splitext\<close> on a POSIX path: separator \<open>/\<close>, extension separator \<open>.\<close>.\<close>

definition splitext :: "string \<Rightarrow> string \<times> string" where
  "splitext p =
     (let sepIndex = rfind p CHR ''/'';
          dotIndex = rfind p CHR ''.''
      in if dotIndex > sepIndex \<and> has_stem p (nat (sepIndex + 1)) (nat dotIndex)
         then (take (nat dotIndex) p, drop (nat dotIndex) p)
         else (p, []))"

text \<open>\<open>str.endswith\<close>.\<close>

definition endswith :: "string \<Rightarrow> string \<Rightarrow> bool" where
  "endswith s suf \<longleftrightarrow>
     length suf \<le> length s \<and> drop (length s - length suf) s = suf"

text \<open>
  Lines 92-96 of \<open>convert\<close>. \<open>out\<close> is \<open>str | None\<close>; \<open>not out\<close> holds for \<open>None\<close> and
  for the empty string. The result is the output path and the flag \<open>nii\<close> after
  line 96.
\<close>

definition resolve_out :: "string \<Rightarrow> string option \<Rightarrow> bool \<Rightarrow> string \<times> bool" where
  "resolve_out inp out nii =
     (let out1 = (case out of
                    None \<Rightarrow> fst (splitext inp) @ (if nii then ''.nii.zarr'' else ''.ome.zarr'')
                  | Some p \<Rightarrow>
                      if p = [] then fst (splitext inp) @ (if nii then ''.nii.zarr'' else ''.ome.zarr'')
                      else p)
      in (out1, nii \<or> endswith out1 ''.nii.zarr''))"


section \<open>Errors\<close>

text \<open>
  Every way the conversion can raise, as a value. The source has no \<open>raise\<close> of its
  own: each error comes out of a call it makes.
\<close>

datatype error =
    LiteralEvalError    \<comment> \<open>\<open>ast.literal_eval\<close> rejects the options string (line 99)\<close>
  | MetadataError       \<comment> \<open>\<open>get_pixelsize\<close> finds no resolution metadata (line 102)\<close>
  | CompressorError     \<comment> \<open>\<open>make_compressor\<close> rejects its arguments (line 115)\<close>
  | ContainsArrayError  \<comment> \<open>\<open>create_dataset\<close> on a key that exists\<close>
  | KeyError            \<comment> \<open>\<open>omz[key]\<close> on a key that does not exist\<close>
  | IndexError          \<comment> \<open>\<open>shape[-2]\<close> on a shape with fewer than two dimensions\<close>
  | ZeroDivisionError   \<comment> \<open>\<open>ceildiv(_, 0)\<close> and \<open>shape0[d] / 0\<close>\<close>
  | OrientationError    \<comment> \<open>\<open>orientation_to_affine\<close> on an unrecognized code (line 207)\<close>

section \<open>Integers and their decimal strings\<close>

definition digit :: "nat \<Rightarrow> char" where
  "digit d = char_of (48 + d)"

text \<open>\<open>str(n)\<close> for a non-negative integer, as the level loops use it.\<close>

fun str :: "nat \<Rightarrow> string" where
  "str n = (if n < 10 then [digit n] else str (n div 10) @ [digit (n mod 10)])"

declare str.simps [simp del]

text \<open>The value of a decimal string, read left to right (used to invert \<open>str\<close>).\<close>

definition digit_val :: "char \<Rightarrow> nat" where
  "digit_val c = of_char c - 48"

definition nat_of_str :: "string \<Rightarrow> nat" where
  "nat_of_str s = foldl (\<lambda>a c. 10 * a + digit_val c) 0 s"

text \<open>
  Modelled from the spec: \<open>ceildiv\<close> of \<open>linc_convert.utils.math\<close> is not among the
  sources. The spec gives the number of tiles per axis as \<open>ceil(dimSize / maxLoad)\<close>;
  on Python integers that is \<open>-(-x // y)\<close>, and a zero divisor raises.
\<close>

definition ceildiv :: "int \<Rightarrow> int \<Rightarrow> error + int" where
  "ceildiv x y = (if y = 0 then Inl ZeroDivisionError else Inr (- ((- x) div y)))"

text \<open>\<open>range(n)\<close>: empty when \<open>n\<close> is not positive.\<close>

definition py_range :: "int \<Rightarrow> int list" where
  "py_range n = map int [0..<nat n]"

text \<open>
  The indices a slice \<open>a:b\<close> selects on a dimension of length \<open>n\<close>: a negative bound
  counts from the end, and both bounds are clipped to \<open>[0, n]\<close>.
\<close>

definition slice_bound :: "int \<Rightarrow> nat \<Rightarrow> nat" where
  "slice_bound x n = (if x < 0 then nat (max (x + int n) 0) else min (nat x) n)"

definition py_slice :: "int \<Rightarrow> int \<Rightarrow> nat \<Rightarrow> nat list" where
  "py_slice a b n = [slice_bound a n ..< slice_bound b n]"

section \<open>The decoder\<close>

text \<open>
  The codestream handle \<open>glymur.Jp2k(inp)\<close>, an external object. Its \<open>shape\<close> is rows,
  columns, then the component dimensions the source reads as \<open>j2k.shape[2:]\<close>; the
  pixel size, the decimation of a side at a level and the pixel values of a level are
  what the decoder provides.
\<close>

record 'a codestream =
  cs_rows :: nat
  cs_cols :: nat
  cs_comps :: "nat list"
  cs_dtype :: string
  cs_num_res :: nat
  cs_pixelsize :: "(real \<times> real) option"
  cs_decim :: "nat \<Rightarrow> nat \<Rightarrow> nat"
  cs_pixel :: "nat \<Rightarrow> nat list \<Rightarrow> 'a"

definition j2k_shape :: "('a, 'z) codestream_scheme \<Rightarrow> nat list" where
  "j2k_shape j2k = cs_rows j2k # cs_cols j2k # cs_comps j2k"

definition j2k_ndim :: "('a, 'z) codestream_scheme \<Rightarrow> int" where
  "j2k_ndim j2k = int (length (j2k_shape j2k))"

text \<open>
  Modelled from the spec: \<open>get_pixelsize\<close> of \<open>linc_convert.utils.j2k\<close> is not among the
  sources. It returns \<open>(voxelWidth, voxelHeight)\<close> from the resolution metadata and
  fails with \<open>MetadataError\<close> when the codestream has none.
\<close>

definition get_pixelsize :: "('a, 'z) codestream_scheme \<Rightarrow> error + real \<times> real" where
  "get_pixelsize j2k =
     (case cs_pixelsize j2k of None \<Rightarrow> Inl MetadataError | Some vx \<Rightarrow> Inr vx)"

text \<open>
  Modelled from the spec: \<open>WrappedJ2K\<close> of \<open>linc_convert.utils.j2k\<close> is not among the
  sources. The level view of level \<open>n\<close> has shape \<open>(\<dots>, H, W)\<close>: the leading dimensions
  are the channel dimensions (which \<open>convert\<close> reads as \<open>j2k.shape[2:]\<close>, lines 110 and
  120), followed by the two spatial sides as the codec decimates them at that level.
\<close>

definition level_shape :: "('a, 'z) codestream_scheme \<Rightarrow> nat \<Rightarrow> nat list" where
  "level_shape j2k level =
     drop 2 (j2k_shape j2k) @ map (cs_decim j2k level) (take 2 (j2k_shape j2k))"

section \<open>The destination store\<close>

text \<open>An element of a stored array: a pixel of the image dtype, or a header byte.\<close>

datatype 'a cell = Pixel 'a | Byte "8 word"

text \<open>The keyword arguments \<open>opt\<close> of \<open>create_dataset\<close> (lines 109-116 and 218-225).\<close>

record 'c array_opt =
  opt_chunks :: "int list"
  opt_dimension_separator :: string
  opt_order :: string
  opt_dtype :: string
  opt_compressor :: "'c option"

record ('a, 'c) zarray =
  za_shape :: "nat list"
  za_chunks :: "int list"
  za_dimension_separator :: string
  za_order :: string
  za_dtype :: string
  za_compressor :: "'c option"
  za_data :: "nat list \<rightharpoonup> 'a cell"

text \<open>
  The group \<open>omz\<close>: its arrays in creation order, and the \<open>multiscales\<close> attribute.
\<close>

record axis =
  ax_name :: string
  ax_type :: string
  ax_unit :: "string option"

datatype transform = Scale "real list" | Translation "real list"

record dataset =
  ds_path :: string
  ds_transforms :: "transform list"

record multiscale =
  ms_version :: string
  ms_axes :: "axis list"
  ms_datasets :: "dataset list"
  ms_type :: string
  ms_name :: string
  ms_transforms :: "transform list"

record ('a, 'c) group =
  g_path :: string
  g_arrays :: "(string \<times> ('a, 'c) zarray) list"
  g_multiscales :: "multiscale list option"

text \<open>\<open>zarr.group(store=DirectoryStore(out), overwrite=True)\<close>: an empty group.\<close>

definition new_group :: "string \<Rightarrow> ('a, 'c) group" where
  "new_group out = \<lparr>g_path = out, g_arrays = [], g_multiscales = None\<rparr>"

text \<open>\<open>omz[key]\<close>.\<close>

definition getitem :: "('a, 'c) group \<Rightarrow> string \<Rightarrow> error + ('a, 'c) zarray" where
  "getitem omz key =
     (case map_of (g_arrays omz) key of None \<Rightarrow> Inl KeyError | Some a \<Rightarrow> Inr a)"

text \<open>
  \<open>omz.create_dataset(name, shape=shape, **opt)\<close>, optionally with \<open>data=\<close>. The store
  is an external library; the model records the array under its name with the
  arguments as the caller passes them. One-dimensional \<open>data\<close> fills the cells
  \<open>[0]\<close>, \<open>[1]\<close>, \<dots>; without \<open>data\<close> no cell is written (\<open>fill_value\<close> is \<open>None\<close>).
\<close>

definition data_cells :: "'a cell list \<Rightarrow> (nat list \<rightharpoonup> 'a cell)" where
  "data_cells bytes =
     (\<lambda>idx. case idx of [i] \<Rightarrow> (if i < length bytes then Some (bytes ! i) else None)
             | _ \<Rightarrow> None)"

definition create_dataset ::
  "('a, 'c) group \<Rightarrow> string \<Rightarrow> 'a cell list option \<Rightarrow> nat list \<Rightarrow> 'c array_opt
     \<Rightarrow> error + ('a, 'c) group" where
  "create_dataset omz name data shape opt =
     (if name \<in> set (map fst (g_arrays omz)) then Inl ContainsArrayError
      else Inr (omz\<lparr>g_arrays := g_arrays omz @
             [(name,
               \<lparr>za_shape = shape,
                za_chunks = opt_chunks opt,
                za_dimension_separator = opt_dimension_separator opt,
                za_order = opt_order opt,
                za_dtype = opt_dtype opt,
                za_compressor = opt_compressor opt,
                za_data = (case data of None \<Rightarrow> Map.empty | Some bytes \<Rightarrow> data_cells bytes)\<rparr>)]\<rparr>))"

text \<open>
  Writing through the handle \<open>array = omz[key]\<close> changes the array stored under the
  key: the new content replaces the old one there.
\<close>

definition set_data ::
  "('a, 'c) group \<Rightarrow> string \<Rightarrow> (nat list \<rightharpoonup> 'a cell) \<Rightarrow> ('a, 'c) group" where
  "set_data omz key d =
     omz\<lparr>g_arrays :=
           map (\<lambda>(k, a). if k = key then (k, a\<lparr>za_data := d\<rparr>) else (k, a)) (g_arrays omz)\<rparr>"

section \<open>Copying a level (lines 127-144)\<close>

text \<open>All index tuples of an array of the given shape, in row-major order.\<close>

primrec indices :: "nat list \<Rightarrow> nat list list" where
  "indices [] = [[]]"
| "indices (n # ns) = concat (map (\<lambda>i. map ((#) i) (indices ns)) [0..<n])"

text \<open>
  \<open>array[idxs] = subdat[idxs]\<close>: every selected cell of the destination receives the
  value the decoder view has at the same index.
\<close>

definition assign ::
  "(nat list \<rightharpoonup> 'v) \<Rightarrow> nat list list \<Rightarrow> (nat list \<Rightarrow> 'v) \<Rightarrow> (nat list \<rightharpoonup> 'v)" where
  "assign array idxs subdat = fold (\<lambda>idx d. d(idx \<mapsto> subdat idx)) idxs array"

text \<open>
  The index tuples of an array of the given shape whose row is among \<open>rows\<close> and
  whose column is among \<open>cols\<close>, the leading dimensions unsliced; and the tuples that
  \<open>[..., a:b, c:d]\<close> selects.
\<close>

definition tile_indices :: "nat list \<Rightarrow> nat list \<Rightarrow> nat list \<Rightarrow> nat list list" where
  "tile_indices shape rows cols =
     concat (map (\<lambda>l. concat (map (\<lambda>r. map (\<lambda>k. l @ [r, k]) cols) rows))
                 (indices (take (length shape - 2) shape)))"

definition region :: "nat list \<Rightarrow> int \<Rightarrow> int \<Rightarrow> int \<Rightarrow> int \<Rightarrow> nat list list" where
  "region shape a b c d =
     tile_indices shape (py_slice a b (shape ! (length shape - 2)))
                        (py_slice c d (shape ! (length shape - 1)))"

text \<open>Line 128: \<open>array[...] = subdat[...]\<close>.\<close>

definition copy_whole ::
  "nat list \<Rightarrow> (nat list \<Rightarrow> 'v) \<Rightarrow> (nat list \<rightharpoonup> 'v) \<Rightarrow> (nat list \<rightharpoonup> 'v)" where
  "copy_whole shape subdat array = assign array (indices shape) subdat"

text \<open>
  Lines 130-143. The pairs \<open>(i, j)\<close> in the order in which the nested loops visit
  them, the row or column slice of a tile, and the loop itself.
\<close>

definition tile_grid :: "int \<Rightarrow> int \<Rightarrow> (int \<times> int) list" where
  "tile_grid ni nj = concat (map (\<lambda>i. map (\<lambda>j. (i, j)) (py_range nj)) (py_range ni))"

definition tile_slice :: "int \<Rightarrow> nat \<Rightarrow> int \<Rightarrow> nat list" where
  "tile_slice max_load n i = py_slice (i * max_load) (min ((i + 1) * max_load) (int n)) n"

definition copy_tiled ::
  "int \<Rightarrow> nat list \<Rightarrow> (nat list \<Rightarrow> 'v) \<Rightarrow> (nat list \<rightharpoonup> 'v) \<Rightarrow> error + (nat list \<rightharpoonup> 'v)" where
  "copy_tiled max_load shape subdat array =
     (if length shape < 2 then Inl IndexError
      else
        let H = shape ! (length shape - 2);
            W = shape ! (length shape - 1)
        in case ceildiv (int H) max_load of
             Inl e \<Rightarrow> Inl e
           | Inr ni \<Rightarrow>
               (case ceildiv (int W) max_load of
                  Inl e \<Rightarrow> Inl e
                | Inr nj \<Rightarrow>
                    Inr (fold (\<lambda>(i, j) d.
                                 assign d
                                   (region shape
                                      (i * max_load) (min ((i + 1) * max_load) (int H))
                                      (j * max_load) (min ((j + 1) * max_load) (int W)))
                                   subdat)
                              (tile_grid ni nj) array)))"

text \<open>Line 127: the choice between the two.\<close>

definition copy_level ::
  "int option \<Rightarrow> nat list \<Rightarrow> (nat list \<Rightarrow> 'v) \<Rightarrow> (nat list \<rightharpoonup> 'v)
     \<Rightarrow> error + (nat list \<rightharpoonup> 'v)" where
  "copy_level max_load shape subdat array =
     (case max_load of
        None \<Rightarrow> Inr (copy_whole shape subdat array)
      | Some m \<Rightarrow>
          if length shape < 2 then Inl IndexError
          else if int (shape ! (length shape - 2)) < m \<and> int (shape ! (length shape - 1)) < m
          then Inr (copy_whole shape subdat array)
          else copy_tiled m shape subdat array)"

text \<open>
  The tiles of a plane of \<open>H\<close> rows and \<open>W\<close> columns, each as its list of rows and its
  list of columns, in the order of the loop.
\<close>

definition tiles :: "int \<Rightarrow> nat \<Rightarrow> nat \<Rightarrow> (nat list \<times> nat list) list" where
  "tiles max_load H W =
     (case ceildiv (int H) max_load of
        Inl e \<Rightarrow> []
      | Inr ni \<Rightarrow>
          (case ceildiv (int W) max_load of
             Inl e \<Rightarrow> []
           | Inr nj \<Rightarrow>
               map (\<lambda>(i, j). (tile_slice max_load H i, tile_slice max_load W j))
                   (tile_grid ni nj)))"

section \<open>Writing the levels (lines 118-144)\<close>

text \<open>
  One iteration of the loop over the levels. The group is returned also when the
  iteration raises, as it is on disk at that moment.
\<close>

definition write_level ::
  "('a, 'z) codestream_scheme \<Rightarrow> 'c array_opt \<Rightarrow> int option \<Rightarrow> nat \<Rightarrow> ('a, 'c) group
     \<Rightarrow> ('a, 'c) group \<times> error option" where
  "write_level j2k opt max_load level omz =
     (let shape = level_shape j2k level
      in case create_dataset omz (str level) None shape opt of
           Inl e \<Rightarrow> (omz, Some e)
         | Inr omz1 \<Rightarrow>
             (case getitem omz1 (str level) of
                Inl e \<Rightarrow> (omz1, Some e)
              | Inr array \<Rightarrow>
                  (case copy_level max_load shape (\<lambda>idx. Pixel (cs_pixel j2k level idx))
                          (za_data array) of
                     Inl e \<Rightarrow> (omz1, Some e)
                   | Inr d \<Rightarrow> (set_data omz1 (str level) d, None))))"

fun write_levels ::
  "('a, 'z) codestream_scheme \<Rightarrow> 'c array_opt \<Rightarrow> int option \<Rightarrow> nat list \<Rightarrow> ('a, 'c) group
     \<Rightarrow> ('a, 'c) group \<times> error option" where
  "write_levels j2k opt max_load [] omz = (omz, None)"
| "write_levels j2k opt max_load (level # levels) omz =
     (case write_level j2k opt max_load level omz of
        (omz1, Some e) \<Rightarrow> (omz1, Some e)
      | (omz1, None) \<Rightarrow> write_levels j2k opt max_load levels omz1)"

section \<open>The multiscale metadata (lines 146-194)\<close>

text \<open>
  \<open>shape0[d] / shape[d]\<close> on the slices \<open>shape0 = omz["0"].shape[-2:]\<close> and
  \<open>shape = omz[str(n)].shape[-2:]\<close>: the two subscripts are evaluated first, then the
  true division of two integers, which raises on a zero divisor. Python's floats are
  taken as real numbers.
\<close>

definition last2 :: "nat list \<Rightarrow> nat list" where
  "last2 shape = drop (length shape - 2) shape"

definition shape_ratio :: "nat list \<Rightarrow> nat list \<Rightarrow> nat \<Rightarrow> error + real" where
  "shape_ratio shape0 shape d =
     (if length shape0 \<le> d then Inl IndexError
      else if length shape \<le> d then Inl IndexError
      else if shape ! d = 0 then Inl ZeroDivisionError
      else Inr (real (shape0 ! d) / real (shape ! d)))"

text \<open>
  The body of the loop of lines 161-187 for level \<open>n\<close>. The scale list is evaluated
  before the translation list, so every error of the entry is raised by one of the
  two ratios of the scale.
\<close>

definition level_dataset ::
  "('a, 'c) group \<Rightarrow> int \<Rightarrow> real \<Rightarrow> real \<Rightarrow> nat \<Rightarrow> error + dataset" where
  "level_dataset omz has_channel vxw vxh n =
     (case getitem omz ''0'' of
        Inl e \<Rightarrow> Inl e
      | Inr a0 \<Rightarrow>
          (case getitem omz (str n) of
             Inl e \<Rightarrow> Inl e
           | Inr an \<Rightarrow>
               (let shape0 = last2 (za_shape a0);
                    shape = last2 (za_shape an)
                in case shape_ratio shape0 shape 0 of
                     Inl e \<Rightarrow> Inl e
                   | Inr rh \<Rightarrow>
                       (case shape_ratio shape0 shape 1 of
                          Inl e \<Rightarrow> Inl e
                        | Inr rw \<Rightarrow>
                            Inr
                              \<lparr>ds_path = str n,
                               ds_transforms =
                                 [Scale (replicate (nat has_channel) 1 @
                                    [rh * vxh, rw * vxw]),
                                  Translation (replicate (nat has_channel) 0 @
                                    [(rh - 1) * vxh * (1 / 2),
                                     (rw - 1) * vxw * (1 / 2)])]\<rparr>))))"

fun level_datasets ::
  "('a, 'c) group \<Rightarrow> int \<Rightarrow> real \<Rightarrow> real \<Rightarrow> nat list \<Rightarrow> dataset list \<Rightarrow> error + dataset list" where
  "level_datasets omz has_channel vxw vxh [] datasets = Inr datasets"
| "level_datasets omz has_channel vxw vxh (n # ns) datasets =
     (case level_dataset omz has_channel vxw vxh n of
        Inl e \<Rightarrow> Inl e
      | Inr level \<Rightarrow> level_datasets omz has_channel vxw vxh ns (datasets @ [level]))"

definition multiscale_axes :: "int \<Rightarrow> axis list" where
  "multiscale_axes has_channel =
     (let axes = [\<lparr>ax_name = ''y'', ax_type = ''space'', ax_unit = Some ''micrometer''\<rparr>,
                  \<lparr>ax_name = ''x'', ax_type = ''space'', ax_unit = Some ''micrometer''\<rparr>]
      in if has_channel \<noteq> 0
         then \<lparr>ax_name = ''c'', ax_type = ''channel'', ax_unit = None\<rparr> # axes
         else axes)"

definition build_multiscales ::
  "('a, 'c) group \<Rightarrow> int \<Rightarrow> real \<Rightarrow> real \<Rightarrow> nat \<Rightarrow> error + multiscale list" where
  "build_multiscales omz has_channel vxw vxh nblevel =
     (case level_datasets omz has_channel vxw vxh [0..<nblevel] [] of
        Inl e \<Rightarrow> Inl e
      | Inr datasets \<Rightarrow>
          Inr [\<lparr>ms_version = ''0.4'',
                ms_axes = multiscale_axes has_channel,
                ms_datasets = datasets,
                ms_type = ''jpeg2000'',
                ms_name = [],
                ms_transforms = [Scale (replicate (nat (2 + has_channel)) 1)]\<rparr>])"

section \<open>Orientation, affine and header (lines 200-226)\<close>

text \<open>
  Modelled from the spec: \<open>orientation_to_affine\<close> of \<open>linc_convert.utils.orientation\<close>
  is not among the sources. An orientation is one of the aliases \<open>coronal\<close> (\<open>LI\<close>),
  \<open>axial\<close> (\<open>LP\<close>), \<open>sagittal\<close> (\<open>PI\<close>), or two letters, each drawn from
  \<open>{L, R, A, P, I, S}\<close>; any other code is unrecognized and raises. The spec does not
  fix the entries of the matrix beyond the in-plane and out-of-plane scaling, so the
  matrix of a recognized code is left to the parameter \<open>mk_affine\<close>.
\<close>

definition orientation_alias :: "string \<Rightarrow> string" where
  "orientation_alias code =
     (if code = ''coronal'' then ''LI''
      else if code = ''axial'' then ''LP''
      else if code = ''sagittal'' then ''PI''
      else code)"

definition recognized :: "string \<Rightarrow> bool" where
  "recognized code =
     (case orientation_alias code of
        [a, b] \<Rightarrow> a \<in> set ''LRAPIS'' \<and> b \<in> set ''LRAPIS''
      | _ \<Rightarrow> False)"

definition orientation_to_affine ::
  "(string \<Rightarrow> real \<Rightarrow> real \<Rightarrow> real \<Rightarrow> real list list) \<Rightarrow> string \<Rightarrow> real \<Rightarrow> real \<Rightarrow> real
     \<Rightarrow> error + real list list" where
  "orientation_to_affine mk_affine orientation vxw vxh vxd =
     (if recognized orientation
      then Inr (mk_affine (orientation_alias orientation) vxw vxh vxd)
      else Inl OrientationError)"

text \<open>
  Modelled from the spec: \<open>center_affine\<close> of \<open>linc_convert.utils.orientation\<close> is not
  among the sources. It recomputes the translation of the affine (the last column of
  its first three rows) so that the voxel at the geometric centre of the field of
  view maps to the origin: with linear part \<open>A\<close> and centre voxel \<open>c\<close> the translation
  becomes \<open>- A c\<close>. The centre voxel of a field of view of shape \<open>[n0, n1]\<close> is
  \<open>((n0 - 1) / 2, (n1 - 1) / 2, 0)\<close>.
\<close>

definition fov_center :: "nat list \<Rightarrow> real list" where
  "fov_center shape = take 3 (map (\<lambda>n. (real n - 1) / 2) shape @ replicate 3 0)"

definition center_row :: "real list \<Rightarrow> real list \<Rightarrow> real list" where
  "center_row c row = row[3 := - (row ! 0 * c ! 0 + row ! 1 * c ! 1 + row ! 2 * c ! 2)]"

definition center_affine :: "real list list \<Rightarrow> nat list \<Rightarrow> real list list" where
  "center_affine affine shape =
     map (center_row (fov_center shape)) (take 3 affine) @ drop 3 affine"

text \<open>
  The fields of \<open>nib.Nifti2Header\<close> that lines 210-216 set. Its serialization
  \<open>structarr.tobytes()\<close> belongs to the header library and is a parameter.
\<close>

record nifti_header =
  nh_data_shape :: "nat list"
  nh_data_dtype :: string
  nh_qform :: "real list list"
  nh_sform :: "real list list"
  nh_xyzt_units :: string
  nh_magic :: string

text \<open>Lines 204-206: the data shape of the header.\<close>

definition header_shape :: "nat list \<Rightarrow> int \<Rightarrow> nat list" where
  "header_shape shape0 has_channel =
     (let shape = rev shape0
      in if has_channel \<noteq> 0 then take 2 shape @ [1, 1] @ drop 2 shape else shape)"

text \<open>\<open>thickness or 1\<close>: \<open>None\<close> and \<open>0.0\<close> are both false.\<close>

definition thickness_or_1 :: "real option \<Rightarrow> real" where
  "thickness_or_1 thickness =
     (case thickness of None \<Rightarrow> 1 | Some t \<Rightarrow> if t = 0 then 1 else t)"

text \<open>
  Lines 204-216: the shape and the header built from level 0 of the store, the
  orientation, the pixel size and the thickness.
\<close>

definition make_header ::
  "(string \<Rightarrow> real \<Rightarrow> real \<Rightarrow> real \<Rightarrow> real list list) \<Rightarrow> ('a, 'c) zarray \<Rightarrow> int \<Rightarrow> real
     \<Rightarrow> real \<Rightarrow> string \<Rightarrow> bool \<Rightarrow> real option \<Rightarrow> error + nifti_header" where
  "make_header mk_affine a0 has_channel vxw vxh orientation center thickness =
     (let shape = header_shape (za_shape a0) has_channel
      in case orientation_to_affine mk_affine orientation vxw vxh (thickness_or_1 thickness) of
           Inl e \<Rightarrow> Inl e
         | Inr affine0 \<Rightarrow>
             (let affine = (if center then center_affine affine0 (take 2 shape) else affine0)
              in Inr \<lparr>nh_data_shape = shape,
                      nh_data_dtype = za_dtype a0,
                      nh_qform = affine,
                      nh_sform = affine,
                      nh_xyzt_units = ''micron'',
                      nh_magic = ''n+2'' @ [CHR 0x00]\<rparr>))"

text \<open>
  Lines 204-226. The variable \<open>shape\<close> of line 226 is the one assigned at lines 204
  and 206.
\<close>

definition write_nifti ::
  "(string \<Rightarrow> real \<Rightarrow> real \<Rightarrow> real \<Rightarrow> real list list) \<Rightarrow> (nifti_header \<Rightarrow> 8 word list)
     \<Rightarrow> ('a, 'c) group \<Rightarrow> int \<Rightarrow> real \<Rightarrow> real \<Rightarrow> string \<Rightarrow> bool \<Rightarrow> real option
     \<Rightarrow> ('a, 'c) group \<times> error option" where
  "write_nifti mk_affine tobytes omz has_channel vxw vxh orientation center thickness =
     (case getitem omz ''0'' of
        Inl e \<Rightarrow> (omz, Some e)
      | Inr a0 \<Rightarrow>
          (let shape = header_shape (za_shape a0) has_channel
           in case make_header mk_affine a0 has_channel vxw vxh orientation center thickness of
                Inl e \<Rightarrow> (omz, Some e)
              | Inr h \<Rightarrow>
                  (let header = tobytes h;
                       opt = \<lparr>opt_chunks = [int (length header)],
                              opt_dimension_separator = ''/'',
                              opt_order = ''F'',
                              opt_dtype = ''|u1'',
                              opt_compressor = None\<rparr>
                   in case create_dataset omz ''nifti'' (Some (map Byte header)) shape opt of
                        Inl e \<Rightarrow> (omz, Some e)
                      | Inr omz1 \<Rightarrow> (omz1, None))))"

section \<open>The conversion\<close>

text \<open>
  What \<open>convert\<close> calls outside this repository's sources: \<open>ast.literal_eval\<close> on
  the options string (\<open>None\<close> when it raises), \<open>glymur.Jp2k\<close>, \<open>make_compressor\<close>
  (\<open>None\<close> when it raises, otherwise the compressor, which may be Python's \<open>None\<close>),
  the affine of a recognized orientation, and the serialization of the header.
\<close>

record ('a, 'o, 'c) env =
  env_literal_eval :: "string \<Rightarrow> 'o option"
  env_Jp2k :: "string \<Rightarrow> 'a codestream"
  env_make_compressor :: "string \<Rightarrow> 'o \<Rightarrow> 'c option option"
  env_affine :: "string \<Rightarrow> real \<Rightarrow> real \<Rightarrow> real \<Rightarrow> real list list"
  env_tobytes :: "nifti_header \<Rightarrow> 8 word list"

text \<open>Lines 109-116: the options of the level arrays.\<close>

definition level_opt :: "('a, 'z) codestream_scheme \<Rightarrow> int \<Rightarrow> 'c option \<Rightarrow> 'c array_opt" where
  "level_opt j2k chunk codec =
     \<lparr>opt_chunks = map int (drop 2 (j2k_shape j2k)) @ [chunk, chunk],
      opt_dimension_separator = ''/'',
      opt_order = ''F'',
      opt_dtype = cs_dtype j2k,
      opt_compressor = codec\<rparr>"

text \<open>
  \<open>convert\<close>, lines 92-227. The result is the destination group as the run leaves it
  (\<open>None\<close> when the run ends before line 105 opens it) and the error raised, if any.
\<close>

definition convert ::
  "('a, 'o, 'c) env \<Rightarrow> string \<Rightarrow> string option \<Rightarrow> int \<Rightarrow> string \<Rightarrow> string \<Rightarrow> int option
     \<Rightarrow> bool \<Rightarrow> string \<Rightarrow> bool \<Rightarrow> real option
     \<Rightarrow> ('a, 'c) group option \<times> error option" where
  "convert env inp out chunk compressor compressor_opt max_load nii orientation center
     thickness =
     (case resolve_out inp out nii of (out1, nii1) \<Rightarrow>
      (case env_literal_eval env compressor_opt of
         None \<Rightarrow> (None, Some LiteralEvalError)
       | Some copt \<Rightarrow>
           (let j2k = env_Jp2k env inp
            in case get_pixelsize j2k of
                 Inl e \<Rightarrow> (None, Some e)
               | Inr (vxw, vxh) \<Rightarrow>
                   (let omz = new_group out1
                    in case env_make_compressor env compressor copt of
                         None \<Rightarrow> (Some omz, Some CompressorError)
                       | Some codec \<Rightarrow>
                           (let opt = level_opt j2k chunk codec;
                                nblevel = cs_num_res j2k;
                                has_channel = j2k_ndim j2k - 2
                            in case write_levels j2k opt max_load [0..<nblevel] omz of
                                 (omz1, Some e) \<Rightarrow> (Some omz1, Some e)
                               | (omz1, None) \<Rightarrow>
                                   (case build_multiscales omz1 has_channel vxw vxh nblevel of
                                      Inl e \<Rightarrow> (Some omz1, Some e)
                                    | Inr multiscales \<Rightarrow>
                                        (let omz2 = omz1\<lparr>g_multiscales := Some multiscales\<rparr>
                                         in if \<not> nii1 then (Some omz2, None)
                                            else
                                              (case write_nifti (env_affine env) (env_tobytes env)
                                                      omz2 has_channel vxw vxh orientation center
                                                      thickness of
                                                 (omz3, e) \<Rightarrow> (Some omz3, e)))))))))"

text \<open>
  The array that an iteration of the level loop leaves under the key of its level
  when it does not raise: the shape of the level view, the options as given, and the
  cells the copy has written into the new array.
\<close>

definition level_array ::
  "('a, 'z) codestream_scheme \<Rightarrow> 'c array_opt \<Rightarrow> int option \<Rightarrow> nat \<Rightarrow> ('a, 'c) zarray" where
  "level_array j2k opt max_load level =
     \<lparr>za_shape = level_shape j2k level,
      za_chunks = opt_chunks opt,
      za_dimension_separator = opt_dimension_separator opt,
      za_order = opt_order opt,
      za_dtype = opt_dtype opt,
      za_compressor = opt_compressor opt,
      za_data = (case copy_level max_load (level_shape j2k level)
                        (\<lambda>idx. Pixel (cs_pixel j2k level idx)) Map.empty of
                   Inl e \<Rightarrow> Map.empty
                 | Inr d \<Rightarrow> d)\<rparr>"

text \<open>
  The entry that lines 164-187 append for level \<open>n\<close>, written with the sides of
  the level views: level 0 has sides \<open>(h0, w0)\<close> and level \<open>n\<close> has sides \<open>(h, w)\<close>.
\<close>

definition level_entry ::
  "('a, 'z) codestream_scheme \<Rightarrow> int \<Rightarrow> real \<Rightarrow> real \<Rightarrow> nat \<Rightarrow> dataset" where
  "level_entry j2k has_channel vxw vxh n =
     (let h0 = cs_decim j2k 0 (cs_rows j2k); w0 = cs_decim j2k 0 (cs_cols j2k);
          h = cs_decim j2k n (cs_rows j2k); w = cs_decim j2k n (cs_cols j2k)
      in \<lparr>ds_path = str n,
          ds_transforms =
            [Scale (replicate (nat has_channel) 1 @
               [(real h0 / real h) * vxh, (real w0 / real w) * vxw]),
             Translation (replicate (nat has_channel) 0 @
               [(real h0 / real h - 1) * vxh * (1 / 2),
                (real w0 / real w - 1) * vxw * (1 / 2)])]\<rparr>)"

text \<open>
  A small conversion to evaluate: a codestream of three components, 5 rows and 7
  columns with three levels that halve each side (rounding up), pixel size 1/2, and
  options, compressor and header bytes of the simplest kind.
\<close>

definition demo_j2k :: "nat codestream" where
  "demo_j2k =
     \<lparr>cs_rows = 5, cs_cols = 7, cs_comps = [3], cs_dtype = ''|u1'', cs_num_res = 3,
      cs_pixelsize = Some (1 / 2, 1 / 2),
      cs_decim = (\<lambda>level n. (n + 2 ^ level - 1) div 2 ^ level),
      cs_pixel = (\<lambda>level idx. sum_list idx + level)\<rparr>"

definition demo_env :: "(nat, unit, string) env" where
  "demo_env =
     \<lparr>env_literal_eval = (\<lambda>s. if s = ''{}'' then Some () else None),
      env_Jp2k = (\<lambda>inp. demo_j2k),
      env_make_compressor = (\<lambda>name opts. if name = ''raw'' then Some None else Some (Some name)),
      env_affine = (\<lambda>code vxw vxh vxd.
         [[- vxw, 0, 0, 0], [0, 0, vxd, 0], [0, - vxh, 0, 0], [0, 0, 0, 1]]),
      env_tobytes = (\<lambda>h. replicate 540 0)\<rparr>"

definition demo_convert ::
  "int option \<Rightarrow> bool \<Rightarrow> string \<Rightarrow> string \<Rightarrow> (nat, string) group option \<times> error option" where
  "demo_convert max_load nii orientation compressor_opt =
     convert demo_env ''slice.jp2'' None 1024 ''blosc'' compressor_opt max_load nii
       orientation True None"

section \<open>Facts about the copy loop\<close>

lemma assign_apply:
  "assign array idxs subdat = (\<lambda>k. if k \<in> set idxs then Some (subdat k) else array k)"
  unfolding assign_def
proof (induction idxs arbitrary: array)
  case Nil
  show ?case by simp
next
  case (Cons x xs)
  have "fold (\<lambda>idx d. d(idx \<mapsto> subdat idx)) (x # xs) array =
        fold (\<lambda>idx d. d(idx \<mapsto> subdat idx)) xs (array(x \<mapsto> subdat x))"
    by simp
  also have "\<dots> = (\<lambda>k. if k \<in> set xs then Some (subdat k) else (array(x \<mapsto> subdat x)) k)"
    by (rule Cons.IH)
  also have "\<dots> = (\<lambda>k. if k \<in> set (x # xs) then Some (subdat k) else array k)"
    by (rule ext) simp
  finally show ?case .
qed

lemma fold_assign:
  "fold (\<lambda>t d. assign d (R t) subdat) ts array =
     (\<lambda>k. if k \<in> (\<Union>t\<in>set ts. set (R t)) then Some (subdat k) else array k)"
proof (induction ts arbitrary: array)
  case Nil
  show ?case by simp
next
  case (Cons t ts)
  have "fold (\<lambda>t d. assign d (R t) subdat) (t # ts) array =
        fold (\<lambda>t d. assign d (R t) subdat) ts (assign array (R t) subdat)"
    by simp
  also have "\<dots> = (\<lambda>k. if k \<in> (\<Union>t\<in>set ts. set (R t)) then Some (subdat k)
                        else (assign array (R t) subdat) k)"
    by (rule Cons.IH)
  also have "\<dots> = (\<lambda>k. if k \<in> (\<Union>t\<in>set (t # ts). set (R t)) then Some (subdat k)
                        else array k)"
    by (rule ext) (simp add: assign_apply)
  finally show ?case .
qed

lemma set_indices_Cons:
  "set (indices (n # ns)) = {i # x | i x. i < n \<and> x \<in> set (indices ns)}"
  by auto

lemma set_indices_plane:
  "set (indices (lead @ [H, W])) =
     {l @ [r, c] | l r c. l \<in> set (indices lead) \<and> r < H \<and> c < W}"
proof (induction lead)
  case Nil
  show ?case by auto
next
  case (Cons n lead)
  show ?case
    unfolding append_Cons set_indices_Cons Cons.IH
    by force
qed

lemma set_region:
  "set (region shape a b c d) =
     {l @ [r, k] | l r k. l \<in> set (indices (take (length shape - 2) shape))
        \<and> r \<in> set (py_slice a b (shape ! (length shape - 2)))
        \<and> k \<in> set (py_slice c d (shape ! (length shape - 1)))}"
  unfolding region_def tile_indices_def by auto



lemma div_lt_iff:
  fixes m :: int
  assumes "0 < m"
  shows "r div m < k \<longleftrightarrow> r < k * m"
proof
  have eq: "r = (r div m) * m + r mod m" by simp
  have lt: "r mod m < m" using assms by simp
  assume "r div m < k"
  then have "r div m + 1 \<le> k" by simp
  then have "(r div m + 1) * m \<le> k * m" using assms by (simp add: mult_right_mono)
  then have "(r div m) * m + m \<le> k * m" by (simp add: algebra_simps)
  with eq lt show "r < k * m" by linarith
next
  have eq: "r = (r div m) * m + r mod m" by simp
  have ge: "0 \<le> r mod m" using assms by simp
  assume "r < k * m"
  show "r div m < k"
  proof (rule ccontr)
    assume "\<not> r div m < k"
    then have "k \<le> r div m" by simp
    then have "k * m \<le> (r div m) * m" using assms by (simp add: mult_right_mono)
    with eq ge \<open>r < k * m\<close> show False by linarith
  qed
qed

lemma div_bounds:
  fixes m :: int
  assumes "0 < m"
  shows "(i * m \<le> r \<and> r < (i + 1) * m) \<longleftrightarrow> r div m = i"
proof -
  have "r div m < i + 1 \<longleftrightarrow> r < (i + 1) * m" using assms by (rule div_lt_iff)
  moreover have "r div m < i \<longleftrightarrow> r < i * m" using assms by (rule div_lt_iff)
  ultimately show ?thesis by auto
qed

lemma ceildiv_pos:
  assumes "0 < m"
  shows "\<exists>q. ceildiv (int n) m = Inr q \<and> (\<forall>r<n. int r div m < q)"
proof -
  let ?q = "- ((- int n) div m)"
  have c: "ceildiv (int n) m = Inr ?q" using assms by (simp add: ceildiv_def)
  have "int r div m < ?q" if "r < n" for r
  proof -
    have eq: "int r = (int r div m) * m + int r mod m" by simp
    have ge: "0 \<le> int r mod m" using assms by simp
    have "(int r div m) * m \<le> int r" using eq ge by linarith
    then have "(int r div m) * m < int n" using that by linarith
    then have "- int n < (- (int r div m)) * m" by simp
    then have "(- int n) div m < - (int r div m)" using assms div_lt_iff by blast
    then show ?thesis by linarith
  qed
  with c show ?thesis by blast
qed

lemma slice_bound_nonneg: "0 \<le> x \<Longrightarrow> slice_bound x n = min (nat x) n"
  by (simp add: slice_bound_def)

lemma tile_slice_mem:
  assumes "0 < m" "0 \<le> i"
  shows "r \<in> set (tile_slice m n i) \<longleftrightarrow> r < n \<and> int r div m = i"
proof -
  have a: "0 \<le> i * m" using assms by simp
  have b: "0 \<le> min ((i + 1) * m) (int n)" using assms by simp
  have "r \<in> set (tile_slice m n i) \<longleftrightarrow>
        min (nat (i * m)) n \<le> r \<and> r < min (nat (min ((i + 1) * m) (int n))) n"
    by (simp add: tile_slice_def py_slice_def slice_bound_nonneg [OF a] slice_bound_nonneg [OF b])
  also have "\<dots> \<longleftrightarrow> r < n \<and> i * m \<le> int r \<and> int r < (i + 1) * m"
    using a by auto
  also have "\<dots> \<longleftrightarrow> r < n \<and> int r div m = i"
    using div_bounds [OF assms(1), of i "int r"] by blast
  finally show ?thesis .
qed

lemma shape_split:
  assumes "2 \<le> length shape"
  shows "shape = take (length shape - 2) shape @ [shape ! (length shape - 2), shape ! (length shape - 1)]"
proof -
  let ?n = "length shape"
  have s: "Suc (?n - 2) = ?n - 1" using assms by simp
  have "drop (?n - 1) shape = [shape ! (?n - 1)]"
    using assms Cons_nth_drop_Suc [of "?n - 1" shape] by simp
  moreover have "drop (?n - 2) shape = shape ! (?n - 2) # drop (?n - 1) shape"
    using assms Cons_nth_drop_Suc [of "?n - 2" shape] s by simp
  ultimately have "drop (?n - 2) shape = [shape ! (?n - 2), shape ! (?n - 1)]" by simp
  then show ?thesis using append_take_drop_id [of "?n - 2" shape] by simp
qed




lemma set_py_range: "set (py_range n) = {i. 0 \<le> i \<and> i < n}"
proof (rule set_eqI)
  fix i
  show "i \<in> set (py_range n) \<longleftrightarrow> i \<in> {i. 0 \<le> i \<and> i < n}"
  proof
    assume "i \<in> set (py_range n)"
    then obtain k where "k < nat n" "i = int k" by (auto simp: py_range_def)
    then show "i \<in> {i. 0 \<le> i \<and> i < n}" by auto
  next
    assume "i \<in> {i. 0 \<le> i \<and> i < n}"
    then have "nat i < nat n" "i = int (nat i)" by auto
    then show "i \<in> set (py_range n)" unfolding py_range_def by (metis atLeast0LessThan image_eqI lessThan_iff set_map set_upt)
  qed
qed

lemma tile_grid_product: "tile_grid ni nj = List.product (py_range ni) (py_range nj)"
  by (simp add: tile_grid_def product_concat_map)

lemma set_tile_grid:
  "set (tile_grid ni nj) = {(i, j). 0 \<le> i \<and> i < ni \<and> 0 \<le> j \<and> j < nj}"
  by (auto simp: tile_grid_product set_py_range)

lemma distinct_py_range: "distinct (py_range n)"
  unfolding py_range_def by (simp add: distinct_map inj_on_def)

lemma distinct_tile_grid: "distinct (tile_grid ni nj)"
  by (simp add: tile_grid_product distinct_product distinct_py_range)




lemma set_tile_region:
  assumes "0 < m" "0 \<le> i" "0 \<le> j"
  shows "set (region shape (i * m) (min ((i + 1) * m) (int (shape ! (length shape - 2))))
                 (j * m) (min ((j + 1) * m) (int (shape ! (length shape - 1))))) =
         {l @ [r, k] | l r k. l \<in> set (indices (take (length shape - 2) shape))
            \<and> r < shape ! (length shape - 2) \<and> int r div m = i
            \<and> k < shape ! (length shape - 1) \<and> int k div m = j}"
  unfolding set_region
  using tile_slice_mem [OF assms(1,2), unfolded tile_slice_def]
        tile_slice_mem [OF assms(1,3), unfolded tile_slice_def]
  by auto

lemma tiled_union:
  assumes len: "2 \<le> length shape" and m: "0 < m"
    and ni: "ceildiv (int (shape ! (length shape - 2))) m = Inr ni"
    and nj: "ceildiv (int (shape ! (length shape - 1))) m = Inr nj"
  shows "(\<Union>t\<in>set (tile_grid ni nj).
            set (case t of (i, j) \<Rightarrow>
                   region shape (i * m) (min ((i + 1) * m) (int (shape ! (length shape - 2))))
                     (j * m) (min ((j + 1) * m) (int (shape ! (length shape - 1))))))
         = set (indices shape)" (is "?L = ?R")
proof -
  let ?lead = "take (length shape - 2) shape"
  let ?H = "shape ! (length shape - 2)"
  let ?W = "shape ! (length shape - 1)"
  have R: "?R = {l @ [r, c] | l r c. l \<in> set (indices ?lead) \<and> r < ?H \<and> c < ?W}"
    using set_indices_plane [of ?lead ?H ?W] shape_split [OF len] by simp
  have bi: "\<And>r. r < ?H \<Longrightarrow> int r div m < ni"
    using ceildiv_pos [OF m, of ?H] ni by auto
  have bj: "\<And>c. c < ?W \<Longrightarrow> int c div m < nj"
    using ceildiv_pos [OF m, of ?W] nj by auto
  have nn: "\<And>r::nat. 0 \<le> int r div m"
    using m by (simp add: pos_imp_zdiv_nonneg_iff)
  show ?thesis
  proof (rule set_eqI)
    fix x
    show "x \<in> ?L \<longleftrightarrow> x \<in> ?R"
    proof
      assume "x \<in> ?L"
      then obtain i j where g: "(i, j) \<in> set (tile_grid ni nj)"
        and x: "x \<in> set (region shape (i * m) (min ((i + 1) * m) (int ?H))
                            (j * m) (min ((j + 1) * m) (int ?W)))"
        by auto
      from g have "0 \<le> i" "0 \<le> j" by (auto simp: set_tile_grid)
      with x show "x \<in> ?R" unfolding R set_tile_region [OF m \<open>0 \<le> i\<close> \<open>0 \<le> j\<close>] by blast
    next
      assume "x \<in> ?R"
      then obtain l r c where x: "x = l @ [r, c]" and l: "l \<in> set (indices ?lead)"
        and r: "r < ?H" and c: "c < ?W" unfolding R by blast
      let ?i = "int r div m" and ?j = "int c div m"
      have g: "(?i, ?j) \<in> set (tile_grid ni nj)"
        using bi [OF r] bj [OF c] nn by (simp add: set_tile_grid)
      have "x \<in> set (region shape (?i * m) (min ((?i + 1) * m) (int ?H))
                            (?j * m) (min ((?j + 1) * m) (int ?W)))"
        unfolding set_tile_region [OF m nn nn] using x l r c by blast
      with g show "x \<in> ?L" by (intro UN_I [of "(?i, ?j)"]) auto
    qed
  qed
qed

lemma copy_tiled_whole:
  assumes "2 \<le> length shape" "0 < max_load"
  shows "copy_tiled max_load shape subdat array = Inr (copy_whole shape subdat array)"
proof -
  let ?H = "shape ! (length shape - 2)"
  let ?W = "shape ! (length shape - 1)"
  obtain ni where ni: "ceildiv (int ?H) max_load = Inr ni"
    using ceildiv_pos [OF assms(2)] by blast
  obtain nj where nj: "ceildiv (int ?W) max_load = Inr nj"
    using ceildiv_pos [OF assms(2)] by blast
  have f: "(\<lambda>(i, j) d. assign d (region shape (i * max_load) (min ((i + 1) * max_load) (int ?H))
                                   (j * max_load) (min ((j + 1) * max_load) (int ?W))) subdat)
         = (\<lambda>t d. assign d (case t of (i, j) \<Rightarrow>
                     region shape (i * max_load) (min ((i + 1) * max_load) (int ?H))
                       (j * max_load) (min ((j + 1) * max_load) (int ?W))) subdat)"
    by (rule ext) (simp add: split_def)
  have "copy_tiled max_load shape subdat array =
        Inr (fold (\<lambda>(i, j) d. assign d (region shape (i * max_load) (min ((i + 1) * max_load) (int ?H))
                                   (j * max_load) (min ((j + 1) * max_load) (int ?W))) subdat)
               (tile_grid ni nj) array)"
    using assms(1) ni nj by (simp add: copy_tiled_def Let_def)
  also have "\<dots> = Inr (\<lambda>k. if k \<in> set (indices shape) then Some (subdat k) else array k)"
    by (simp only: f fold_assign tiled_union [OF assms ni nj])
  finally have "copy_tiled max_load shape subdat array =
        Inr (\<lambda>k. if k \<in> set (indices shape) then Some (subdat k) else array k)" .
  then show ?thesis by (simp add: copy_whole_def assign_apply)
qed

lemma copy_tiled_tiles:
  assumes "2 \<le> length shape" "max_load \<noteq> 0"
  shows "copy_tiled max_load shape subdat array =
           Inr (fold (\<lambda>(rows, cols) d. assign d (tile_indices shape rows cols) subdat)
                  (tiles max_load (shape ! (length shape - 2)) (shape ! (length shape - 1)))
                  array)"
proof -
  have "(\<lambda>(rows, cols) d. assign d (tile_indices shape rows cols) subdat) \<circ>
          (\<lambda>(i, j). (tile_slice max_load (shape ! (length shape - 2)) i,
                    tile_slice max_load (shape ! (length shape - 1)) j))
        = (\<lambda>(i, j) d. assign d
              (region shape
                 (i * max_load) (min ((i + 1) * max_load) (int (shape ! (length shape - 2))))
                 (j * max_load) (min ((j + 1) * max_load) (int (shape ! (length shape - 1)))))
              subdat)"
    by (rule ext) (simp add: split_def region_def tile_slice_def)
  then show ?thesis
    using assms
    by (simp add: copy_tiled_def tiles_def ceildiv_def Let_def fold_map)
qed

lemma copy_level_whole:
  assumes "2 \<le> length shape" "0 < max_load"
  shows "copy_level (Some max_load) shape subdat array = Inr (copy_whole shape subdat array)"
  using assms by (simp add: copy_level_def copy_tiled_whole)




lemma tiles_cover_once:
  assumes m: "0 < m" and r: "r < H" and c: "c < W"
  shows "length (filter (\<lambda>(rows, cols). r \<in> set rows \<and> c \<in> set cols) (tiles m H W)) = 1"
proof -
  obtain ni where ni: "ceildiv (int H) m = Inr ni" and bi: "\<forall>r<H. int r div m < ni"
    using ceildiv_pos [OF m] by blast
  obtain nj where nj: "ceildiv (int W) m = Inr nj" and bj: "\<forall>c<W. int c div m < nj"
    using ceildiv_pos [OF m] by blast
  let ?t = "(int r div m, int c div m)"
  have nn: "\<And>k::nat. 0 \<le> int k div m"
    using m by (simp add: pos_imp_zdiv_nonneg_iff)
  have mem: "?t \<in> set (tile_grid ni nj)"
    using bi r bj c nn by (simp add: set_tile_grid)
  let ?P = "\<lambda>(rows, cols). r \<in> set rows \<and> c \<in> set cols"
  let ?g = "\<lambda>(i, j). (tile_slice m H i, tile_slice m W j)"
  have cong: "filter (?P \<circ> ?g) (tile_grid ni nj) = filter (\<lambda>t. ?t = t) (tile_grid ni nj)"
  proof (rule filter_cong [OF refl])
    fix t assume "t \<in> set (tile_grid ni nj)"
    then obtain i j where t: "t = (i, j)" and "0 \<le> i" "0 \<le> j"
      by (auto simp: set_tile_grid)
    then show "(?P \<circ> ?g) t = (?t = t)"
      using tile_slice_mem [OF m \<open>0 \<le> i\<close>, of r H] tile_slice_mem [OF m \<open>0 \<le> j\<close>, of c W] r c
      by auto
  qed
  have "tiles m H W = map ?g (tile_grid ni nj)"
    by (simp add: tiles_def ni nj)
  then have "filter ?P (tiles m H W) = map ?g (filter (\<lambda>t. ?t = t) (tile_grid ni nj))"
    by (simp only: filter_map cong)
  moreover have "length (filter (\<lambda>t. ?t = t) (tile_grid ni nj)) = 1"
    using mem distinct_tile_grid [of ni nj]
    by (simp add: distinct_length_filter)
  ultimately show ?thesis by simp
qed

lemma tiles_distinct:
  "(rows, cols) \<in> set (tiles m H W) \<Longrightarrow> distinct rows \<and> distinct cols"
  by (auto simp: tiles_def tile_slice_def py_slice_def split: sum.splits)

lemma level_shape_eq:
  "level_shape j2k level =
     cs_comps j2k @ [cs_decim j2k level (cs_rows j2k), cs_decim j2k level (cs_cols j2k)]"
  by (simp add: level_shape_def j2k_shape_def)

lemma copy_level_None:
  "copy_level None shape subdat array = Inr (copy_whole shape subdat array)"
  by (simp add: copy_level_def)

lemma write_level_max_load:
  assumes "0 < m"
  shows "write_level j2k opt (Some m) level omz = write_level j2k opt None level omz"
proof -
  have len: "2 \<le> length (level_shape j2k level)" by (simp add: level_shape_eq)
  show ?thesis
    unfolding write_level_def Let_def
    by (simp add: copy_level_whole [OF len assms] copy_level_None cong: sum.case_cong)
qed

lemma write_levels_max_load:
  assumes "0 < m"
  shows "write_levels j2k opt (Some m) levels omz = write_levels j2k opt None levels omz"
  by (induction levels arbitrary: omz) (simp_all add: write_level_max_load [OF assms])

lemma convert_max_load:
  assumes "0 < m"
  shows "convert env inp out chunk compressor compressor_opt (Some m) nii orientation center thickness
       = convert env inp out chunk compressor compressor_opt None nii orientation center thickness"
  unfolding convert_def by (simp only: write_levels_max_load [OF assms])

section \<open>Facts about level keys and the level loop\<close>

lemma digit_val_digit: "d < 10 \<Longrightarrow> digit_val (digit d) = d"
  by (simp add: digit_val_def digit_def of_char_of)

lemma nat_of_str_snoc: "nat_of_str (s @ [c]) = 10 * nat_of_str s + digit_val c"
  by (simp add: nat_of_str_def)

lemma nat_of_str_str: "nat_of_str (str n) = n"
proof (induction n rule: str.induct)
  case (1 n)
  show ?case
  proof (cases "n < 10")
    case True
    then show ?thesis
      by (subst str.simps) (simp add: nat_of_str_def digit_val_digit)
  next
    case False
    then have "nat_of_str (str n) = 10 * nat_of_str (str (n div 10)) + digit_val (digit (n mod 10))"
      by (subst str.simps) (simp add: nat_of_str_snoc)
    also have "\<dots> = 10 * (n div 10) + n mod 10"
      using False by (simp add: "1.IH" digit_val_digit)
    finally show ?thesis by simp
  qed
qed

lemma str_inj: "str a = str b \<Longrightarrow> a = b"
  by (metis nat_of_str_str)

lemma digit_0: "digit 0 = CHR ''0''"
  by code_simp

lemma str_0: "str 0 = ''0''"
  by (subst str.simps) (simp add: digit_0)

lemma str_ex: "map str [0, 1, 2, 10, 123] = [''0'', ''1'', ''2'', ''10'', ''123'']"
  by code_simp

lemma inj_str: "inj str"
  by (rule injI) (rule str_inj)

lemma getitem_new:
  assumes "name \<notin> set (map fst arrays)"
  shows "map_of (arrays @ [(name, a)]) name = Some a"
  using assms by (induction arrays) auto

lemma set_data_new:
  assumes "name \<notin> set (map fst arrays)"
  shows "map (\<lambda>(k, a). if k = name then (k, a\<lparr>za_data := d\<rparr>) else (k, a)) (arrays @ [(name, b)])
         = arrays @ [(name, b\<lparr>za_data := d\<rparr>)]"
  using assms by (induction arrays) auto

lemma write_level_ok:
  fixes omz :: "('a, 'c) group"
  assumes "write_level j2k opt max_load level omz = (omz1, None)"
  shows "str level \<notin> set (map fst (g_arrays omz)) \<and>
         omz1 = omz\<lparr>g_arrays := g_arrays omz @ [(str level, level_array j2k opt max_load level)]\<rparr>"
proof -
  let ?k = "str level"
  let ?a = "\<lparr>za_shape = level_shape j2k level,
             za_chunks = opt_chunks opt,
             za_dimension_separator = opt_dimension_separator opt,
             za_order = opt_order opt,
             za_dtype = opt_dtype opt,
             za_compressor = opt_compressor opt,
             za_data = Map.empty\<rparr> :: ('a, 'c) zarray"
  let ?omz = "omz\<lparr>g_arrays := g_arrays omz @ [(?k, ?a)]\<rparr>"
  from assms have nk: "?k \<notin> set (map fst (g_arrays omz))"
    by (auto simp: write_level_def Let_def create_dataset_def split: if_splits)
  have c: "create_dataset omz ?k None (level_shape j2k level) opt = Inr ?omz"
    using nk by (simp add: create_dataset_def)
  have g: "getitem ?omz ?k = Inr ?a"
    using getitem_new [OF nk, of ?a] by (simp add: getitem_def del: map_of_append)
  have w: "write_level j2k opt max_load level omz =
           (case copy_level max_load (level_shape j2k level)
                   (\<lambda>idx. Pixel (cs_pixel j2k level idx)) Map.empty of
              Inl e \<Rightarrow> (?omz, Some e)
            | Inr d \<Rightarrow> (set_data ?omz ?k d, None))"
    unfolding write_level_def Let_def by (simp only: c g sum.case zarray.select_convs)
  from assms obtain d where
    d: "copy_level max_load (level_shape j2k level) (\<lambda>idx. Pixel (cs_pixel j2k level idx)) Map.empty = Inr d"
    and o: "omz1 = set_data ?omz ?k d"
    unfolding w by (auto split: sum.splits)
  have "omz1 = omz\<lparr>g_arrays := g_arrays omz @ [(?k, ?a\<lparr>za_data := d\<rparr>)]\<rparr>"
    unfolding o set_data_def using set_data_new [OF nk, of d ?a] by simp
  then show ?thesis using nk d by (simp add: level_array_def)
qed

lemma write_level_frame:
  assumes "write_level j2k opt max_load level omz = (omz1, e)"
  shows "g_multiscales omz1 = g_multiscales omz \<and> g_path omz1 = g_path omz"
  using assms
  by (auto simp: write_level_def Let_def create_dataset_def set_data_def
        split: if_splits sum.splits)

lemma write_levels_frame:
  assumes "write_levels j2k opt max_load levels omz = (omz1, e)"
  shows "g_multiscales omz1 = g_multiscales omz \<and> g_path omz1 = g_path omz"
  using assms
proof (induction levels arbitrary: omz)
  case Nil
  then show ?case by simp
next
  case (Cons level levels)
  obtain omz2 e2 where w: "write_level j2k opt max_load level omz = (omz2, e2)"
    by (cases "write_level j2k opt max_load level omz")
  show ?case
  proof (cases e2)
    case None
    with Cons.prems w have "write_levels j2k opt max_load levels omz2 = (omz1, e)" by simp
    from Cons.IH [OF this] write_level_frame [OF w] show ?thesis by simp
  next
    case (Some err)
    with Cons.prems w have "omz1 = omz2" by simp
    with write_level_frame [OF w] show ?thesis by simp
  qed
qed

lemma write_levels_ok:
  assumes "write_levels j2k opt max_load levels omz = (omz1, None)"
  shows "omz1 = omz\<lparr>g_arrays := g_arrays omz @
           map (\<lambda>level. (str level, level_array j2k opt max_load level)) levels\<rparr>"
  using assms
proof (induction levels arbitrary: omz)
  case Nil
  then show ?case by simp
next
  case (Cons level levels)
  obtain omz2 e2 where w: "write_level j2k opt max_load level omz = (omz2, e2)"
    by (cases "write_level j2k opt max_load level omz")
  show ?case
  proof (cases e2)
    case None
    with Cons.prems w have "write_levels j2k opt max_load levels omz2 = (omz1, None)" by simp
    from Cons.IH [OF this] write_level_ok [OF w [unfolded None]] show ?thesis by simp
  next
    case (Some err)
    with Cons.prems w show ?thesis by simp
  qed
qed

section \<open>Facts about the metadata and the header\<close>

lemma map_of_levels:
  assumes "k \<in> set ls"
  shows "map_of (map (\<lambda>l. (str l, f l)) ls) (str k) = Some (f k)"
  using assms by (induction ls) (auto dest: str_inj)

lemma last2_level_shape:
  "last2 (level_shape j2k n) =
     [cs_decim j2k n (cs_rows j2k), cs_decim j2k n (cs_cols j2k)]"
  by (simp add: last2_def level_shape_eq)

lemma getitem_level:
  assumes "g_arrays omz = map (\<lambda>l. (str l, level_array j2k opt max_load l)) [0..<N]" "n < N"
  shows "getitem omz (str n) = Inr (level_array j2k opt max_load n)"
  using assms map_of_levels [of n "[0..<N]" "level_array j2k opt max_load"]
  by (simp add: getitem_def)

lemma level_dataset_written:
  assumes a: "g_arrays omz = map (\<lambda>l. (str l, level_array j2k opt max_load l)) [0..<N]"
    and n: "n < N"
  shows "level_dataset omz has_channel vxw vxh n =
           (if cs_decim j2k n (cs_rows j2k) = 0 \<or> cs_decim j2k n (cs_cols j2k) = 0
            then Inl ZeroDivisionError
            else Inr (level_entry j2k has_channel vxw vxh n))"
proof -
  have z: "0 < N" using n by simp
  have g0: "getitem omz ''0'' = Inr (level_array j2k opt max_load 0)"
    using getitem_level [OF a z] by (simp add: str_0)
  have gn: "getitem omz (str n) = Inr (level_array j2k opt max_load n)"
    using getitem_level [OF a n] .
  have s: "\<And>l. last2 (za_shape (level_array j2k opt max_load l)) =
             [cs_decim j2k l (cs_rows j2k), cs_decim j2k l (cs_cols j2k)]"
    by (simp add: level_array_def last2_level_shape)
  show ?thesis
    unfolding level_dataset_def g0 gn
    by (simp add: s level_entry_def shape_ratio_def Let_def)
qed

lemma level_datasets_acc:
  assumes "level_datasets omz has_channel vxw vxh ns acc = Inr datasets"
  shows "\<exists>ds. datasets = acc @ ds \<and>
              map (level_dataset omz has_channel vxw vxh) ns = map Inr ds"
  using assms
proof (induction ns arbitrary: acc)
  case Nil
  then show ?case by simp
next
  case (Cons n ns)
  from Cons.prems obtain d where d: "level_dataset omz has_channel vxw vxh n = Inr d"
    and r: "level_datasets omz has_channel vxw vxh ns (acc @ [d]) = Inr datasets"
    by (auto split: sum.splits)
  from Cons.IH [OF r] obtain ds where "datasets = (acc @ [d]) @ ds"
    "map (level_dataset omz has_channel vxw vxh) ns = map Inr ds" by blast
  then show ?case using d by (intro exI [of _ "d # ds"]) simp
qed

lemma build_multiscales_ok:
  assumes "build_multiscales omz has_channel vxw vxh nblevel = Inr multiscales"
  shows "\<exists>ds. map (level_dataset omz has_channel vxw vxh) [0..<nblevel] = map Inr ds \<and>
           multiscales =
             [\<lparr>ms_version = ''0.4'',
               ms_axes = multiscale_axes has_channel,
               ms_datasets = ds,
               ms_type = ''jpeg2000'',
               ms_name = [],
               ms_transforms = [Scale (replicate (nat (2 + has_channel)) 1)]\<rparr>]"
proof -
  from assms obtain datasets where
    l: "level_datasets omz has_channel vxw vxh [0..<nblevel] [] = Inr datasets"
    and m: "multiscales =
             [\<lparr>ms_version = ''0.4'',
               ms_axes = multiscale_axes has_channel,
               ms_datasets = datasets,
               ms_type = ''jpeg2000'',
               ms_name = [],
               ms_transforms = [Scale (replicate (nat (2 + has_channel)) 1)]\<rparr>]"
    by (auto simp: build_multiscales_def split: sum.splits)
  from level_datasets_acc [OF l] m show ?thesis by auto
qed

lemma write_nifti_frame:
  assumes "write_nifti mk_affine tobytes omz has_channel vxw vxh orientation center thickness = (omz1, e)"
  shows "g_multiscales omz1 = g_multiscales omz \<and> g_path omz1 = g_path omz"
  using assms
  by (auto simp: write_nifti_def Let_def create_dataset_def split: sum.splits if_splits)

lemma convert_written:
  fixes env :: "('a, 'o, 'c) env" and omz :: "('a, 'c) group"
  assumes c: "convert env inp out chunk compressor compressor_opt max_load nii orientation
                center thickness = (Some omz, e)"
    and m: "g_multiscales omz = Some multiscales"
  shows "\<exists>copt codec vxw vxh omz1.
           env_literal_eval env compressor_opt = Some copt
         \<and> cs_pixelsize (env_Jp2k env inp) = Some (vxw, vxh)
         \<and> env_make_compressor env compressor copt = Some codec
         \<and> write_levels (env_Jp2k env inp) (level_opt (env_Jp2k env inp) chunk codec) max_load
              [0..<cs_num_res (env_Jp2k env inp)] (new_group (fst (resolve_out inp out nii)))
             = (omz1, None)
         \<and> build_multiscales omz1 (j2k_ndim (env_Jp2k env inp) - 2) vxw vxh
              (cs_num_res (env_Jp2k env inp)) = Inr multiscales
         \<and> (if snd (resolve_out inp out nii)
             then write_nifti (env_affine env) (env_tobytes env)
                    (omz1\<lparr>g_multiscales := Some multiscales\<rparr>)
                    (j2k_ndim (env_Jp2k env inp) - 2) vxw vxh orientation center thickness
                  = (omz, e)
             else omz = omz1\<lparr>g_multiscales := Some multiscales\<rparr> \<and> e = None)"
proof -
  let ?j2k = "env_Jp2k env inp"
  obtain out1 nii1 where r: "resolve_out inp out nii = (out1, nii1)"
    by (cases "resolve_out inp out nii")
  from c r obtain copt where copt: "env_literal_eval env compressor_opt = Some copt"
    by (auto simp: convert_def split: option.splits)
  from c r copt obtain vxw vxh where vx: "cs_pixelsize ?j2k = Some (vxw, vxh)"
    by (cases "cs_pixelsize ?j2k") (auto simp: convert_def get_pixelsize_def)
  then have gp: "get_pixelsize ?j2k = Inr (vxw, vxh)" by (simp add: get_pixelsize_def)
  have ng: "g_multiscales (new_group out1 :: ('a, 'c) group) = None" by (simp add: new_group_def)
  from c r copt gp m ng obtain codec where codec: "env_make_compressor env compressor copt = Some codec"
    by (cases "env_make_compressor env compressor copt") (auto simp: convert_def Let_def)
  let ?opt = "level_opt ?j2k chunk codec"
  obtain omz1 e1 where w: "write_levels ?j2k ?opt max_load [0..<cs_num_res ?j2k] (new_group out1) = (omz1, e1)"
    by (cases "write_levels ?j2k ?opt max_load [0..<cs_num_res ?j2k] (new_group out1 :: ('a, 'c) group)")
  have f1: "g_multiscales omz1 = None" using write_levels_frame [OF w] ng by simp
  have e1: "e1 = None"
  proof (cases e1)
    case (Some err)
    with c r copt gp codec w have "omz = omz1" by (simp add: convert_def Let_def)
    with f1 m show ?thesis by simp
  qed simp
  note w = w [unfolded e1]
  have c2: "(case build_multiscales omz1 (j2k_ndim ?j2k - 2) vxw vxh (cs_num_res ?j2k) of
               Inl e \<Rightarrow> (Some omz1, Some e)
             | Inr multiscales \<Rightarrow>
                 (let omz2 = omz1\<lparr>g_multiscales := Some multiscales\<rparr>
                  in if \<not> nii1 then (Some omz2, None)
                     else (case write_nifti (env_affine env) (env_tobytes env) omz2
                                 (j2k_ndim ?j2k - 2) vxw vxh orientation center thickness of
                             (omz3, e) \<Rightarrow> (Some omz3, e)))) = (Some omz, e)"
    using c r copt gp codec w by (simp add: convert_def Let_def)
  then obtain ms where b: "build_multiscales omz1 (j2k_ndim ?j2k - 2) vxw vxh (cs_num_res ?j2k) = Inr ms"
    using f1 m by (auto split: sum.splits)
  have ms: "ms = multiscales \<and> (if nii1
             then write_nifti (env_affine env) (env_tobytes env)
                    (omz1\<lparr>g_multiscales := Some multiscales\<rparr>)
                    (j2k_ndim ?j2k - 2) vxw vxh orientation center thickness = (omz, e)
             else omz = omz1\<lparr>g_multiscales := Some multiscales\<rparr> \<and> e = None)"
  proof (cases nii1)
    case False
    with c2 b m show ?thesis by (auto simp: Let_def)
  next
    case True
    with c2 b have wn: "write_nifti (env_affine env) (env_tobytes env)
                    (omz1\<lparr>g_multiscales := Some ms\<rparr>)
                    (j2k_ndim ?j2k - 2) vxw vxh orientation center thickness = (omz, e)"
      by (auto simp: Let_def split: prod.splits)
    from write_nifti_frame [OF wn] m have "ms = multiscales" by simp
    with wn True show ?thesis by simp
  qed
  show ?thesis
    using copt vx codec w b ms r by (intro exI [of _ copt] exI [of _ codec] exI [of _ vxw] exI [of _ vxh] exI [of _ omz1]) simp
qed

lemma write_nifti_arrays:
  assumes "write_nifti mk_affine tobytes omz has_channel vxw vxh orientation center thickness = (omz1, e)"
  shows "g_arrays omz1 = g_arrays omz \<or> (e = None \<and> (\<exists>a. g_arrays omz1 = g_arrays omz @ [(''nifti'', a)]))"
  using assms
  by (auto simp: write_nifti_def Let_def create_dataset_def split: sum.splits if_splits)

lemma convert_result:
  fixes env :: "('a, 'o, 'c) env" and omz :: "('a, 'c) group"
  assumes c: "convert env inp out chunk compressor compressor_opt max_load nii orientation
                center thickness = (Some omz, e)"
    and m: "g_multiscales omz = Some multiscales"
  shows "\<exists>codec vxw vxh rest.
           cs_pixelsize (env_Jp2k env inp) = Some (vxw, vxh)
         \<and> g_arrays omz =
             map (\<lambda>l. (str l, level_array (env_Jp2k env inp)
                                 (level_opt (env_Jp2k env inp) chunk codec) max_load l))
                 [0..<cs_num_res (env_Jp2k env inp)] @ rest
         \<and> (rest = [] \<or> (e = None \<and> (\<exists>a. rest = [(''nifti'', a)])))
         \<and> (\<forall>n<cs_num_res (env_Jp2k env inp).
               cs_decim (env_Jp2k env inp) n (cs_rows (env_Jp2k env inp)) \<noteq> 0
             \<and> cs_decim (env_Jp2k env inp) n (cs_cols (env_Jp2k env inp)) \<noteq> 0)
         \<and> multiscales =
             [\<lparr>ms_version = ''0.4'',
               ms_axes = multiscale_axes (j2k_ndim (env_Jp2k env inp) - 2),
               ms_datasets =
                 map (level_entry (env_Jp2k env inp) (j2k_ndim (env_Jp2k env inp) - 2) vxw vxh)
                     [0..<cs_num_res (env_Jp2k env inp)],
               ms_type = ''jpeg2000'',
               ms_name = [],
               ms_transforms = [Scale (replicate (nat (2 + (j2k_ndim (env_Jp2k env inp) - 2))) 1)]\<rparr>]"
proof -
  let ?j2k = "env_Jp2k env inp"
  let ?N = "cs_num_res ?j2k"
  let ?hc = "j2k_ndim ?j2k - 2"
  from convert_written [OF c m] obtain copt codec vxw vxh omz1 where
    vx: "cs_pixelsize ?j2k = Some (vxw, vxh)"
    and w: "write_levels ?j2k (level_opt ?j2k chunk codec) max_load [0..<?N]
              (new_group (fst (resolve_out inp out nii))) = (omz1, None)"
    and b: "build_multiscales omz1 ?hc vxw vxh ?N = Inr multiscales"
    and n: "if snd (resolve_out inp out nii)
             then write_nifti (env_affine env) (env_tobytes env)
                    (omz1\<lparr>g_multiscales := Some multiscales\<rparr>) ?hc vxw vxh orientation center thickness
                  = (omz, e)
             else omz = omz1\<lparr>g_multiscales := Some multiscales\<rparr> \<and> e = None"
    by blast
  let ?lv = "map (\<lambda>l. (str l, level_array ?j2k (level_opt ?j2k chunk codec) max_load l)) [0..<?N]"
  have a1: "g_arrays omz1 = ?lv"
    using write_levels_ok [OF w] by (simp add: new_group_def)
  from build_multiscales_ok [OF b] obtain ds where
    ds: "map (level_dataset omz1 ?hc vxw vxh) [0..<?N] = map Inr ds"
    and ms: "multiscales =
             [\<lparr>ms_version = ''0.4'', ms_axes = multiscale_axes ?hc, ms_datasets = ds,
               ms_type = ''jpeg2000'', ms_name = [],
               ms_transforms = [Scale (replicate (nat (2 + ?hc)) 1)]\<rparr>]"
    by blast
  from ds have len: "length ds = ?N" by (metis length_map length_upt minus_nat.diff_0)
  have each: "level_dataset omz1 ?hc vxw vxh k = Inr (ds ! k)" if "k < ?N" for k
  proof -
    have "map (level_dataset omz1 ?hc vxw vxh) [0..<?N] ! k = map Inr ds ! k" using ds by simp
    then show ?thesis using that len by simp
  qed
  have nz: "cs_decim ?j2k k (cs_rows ?j2k) \<noteq> 0 \<and> cs_decim ?j2k k (cs_cols ?j2k) \<noteq> 0
            \<and> ds ! k = level_entry ?j2k ?hc vxw vxh k" if "k < ?N" for k
    using each [OF that] level_dataset_written [OF a1 that, of ?hc vxw vxh]
    by (auto split: if_splits)
  have dseq: "ds = map (level_entry ?j2k ?hc vxw vxh) [0..<?N]"
    by (rule nth_equalityI) (simp_all add: len nz)
  have arr: "\<exists>rest. g_arrays omz = ?lv @ rest \<and> (rest = [] \<or> (e = None \<and> (\<exists>a. rest = [(''nifti'', a)])))"
  proof (cases "snd (resolve_out inp out nii)")
    case True
    with n have "write_nifti (env_affine env) (env_tobytes env)
                    (omz1\<lparr>g_multiscales := Some multiscales\<rparr>) ?hc vxw vxh orientation center thickness
                  = (omz, e)" by simp
    from write_nifti_arrays [OF this] a1 show ?thesis by auto
  next
    case False
    with n a1 show ?thesis by auto
  qed
  then obtain rest where "g_arrays omz = ?lv @ rest"
    "rest = [] \<or> (e = None \<and> (\<exists>a. rest = [(''nifti'', a)]))" by blast
  with vx nz ms dseq show ?thesis
    by (intro exI [of _ codec] exI [of _ vxw] exI [of _ vxh] exI [of _ rest]) simp
qed

lemma fst_snd_splitext: "fst (splitext p) @ snd (splitext p) = p"
  by (simp add: splitext_def Let_def)

lemma endswith_append: "endswith (r @ s) s"
  by (simp add: endswith_def)

lemma center_row_idem: "center_row c (center_row c row) = center_row c row"
  by (simp add: center_row_def)

lemma center_affine_origin:
  assumes "i < 3" "i < length affine" "3 < length (affine ! i)"
  shows "(let row = center_affine affine [n0, n1] ! i; c = fov_center [n0, n1]
          in row ! 0 * c ! 0 + row ! 1 * c ! 1 + row ! 2 * c ! 2 + row ! 3) = 0"
  using assms by (simp add: center_affine_def nth_append center_row_def Let_def)

lemma has_channel_eq: "nat (j2k_ndim j2k - 2) = length (cs_comps j2k)"
  by (simp add: j2k_ndim_def j2k_shape_def)

lemma demo_run:
  "demo_convert (Some 4) True ''coronal'' ''{}''
     = (Some (the (fst (demo_convert (Some 4) True ''coronal'' ''{}''))), None)"
proof -
  have "fst (demo_convert (Some 4) True ''coronal'' ''{}'') \<noteq> None" by code_simp
  moreover have "snd (demo_convert (Some 4) True ''coronal'' ''{}'') = None" by code_simp
  ultimately show ?thesis by (cases "demo_convert (Some 4) True ''coronal'' ''{}''") auto
qed

lemma demo_ms: "g_multiscales (the (fst (demo_convert (Some 4) True ''coronal'' ''{}''))) \<noteq> None"
  by code_simp



lemma getitem_levels_append:
  assumes "g_arrays omz = map (\<lambda>l. (str l, f l)) [0..<N] @ rest" "n < N"
  shows "getitem omz (str n) = Inr (f n)"
  using assms map_of_levels [of n "[0..<N]" f]
  by (simp add: getitem_def map_add_find_right)

lemma demo_levels: "cs_num_res (env_Jp2k demo_env ''slice.jp2'') = 3"
  by code_simp

lemma demo_comps: "cs_comps (env_Jp2k demo_env ''slice.jp2'') = [3]"
  by code_simp

lemma copy_level_errors:
  assumes "copy_level max_load shape subdat array = Inl err"
  shows "err = IndexError \<or> err = ZeroDivisionError"
  using assms
  by (auto simp: copy_level_def copy_tiled_def ceildiv_def Let_def
           split: option.splits if_splits sum.splits)

lemma write_level_errors:
  fixes omz :: "('a, 'c) group"
  assumes "write_level j2k opt max_load level omz = (omz1, Some err)"
  shows "err \<noteq> OrientationError \<and> err \<noteq> LiteralEvalError"
  using assms
  by (auto simp: write_level_def Let_def create_dataset_def getitem_def
           split: sum.splits if_splits option.splits dest: copy_level_errors)

lemma write_levels_errors:
  fixes omz :: "('a, 'c) group"
  assumes "write_levels j2k opt max_load levels omz = (omz1, Some err)"
  shows "err \<noteq> OrientationError \<and> err \<noteq> LiteralEvalError"
  using assms
proof (induction levels arbitrary: omz)
  case Nil
  then show ?case by simp
next
  case (Cons level levels)
  obtain omz2 e2 where w: "write_level j2k opt max_load level omz = (omz2, e2)"
    by (cases "write_level j2k opt max_load level omz")
  show ?case
  proof (cases e2)
    case None
    with Cons.prems w have "write_levels j2k opt max_load levels omz2 = (omz1, Some err)" by simp
    from Cons.IH [OF this] show ?thesis .
  next
    case (Some err2)
    with Cons.prems w have "err = err2" by simp
    with write_level_errors [OF w [unfolded Some]] show ?thesis by simp
  qed
qed

lemma level_dataset_errors:
  assumes "level_dataset omz has_channel vxw vxh n = Inl err"
  shows "err \<noteq> OrientationError \<and> err \<noteq> LiteralEvalError"
  using assms
  by (auto simp: level_dataset_def getitem_def shape_ratio_def Let_def
           split: sum.splits option.splits if_splits)

lemma level_datasets_errors:
  assumes "level_datasets omz has_channel vxw vxh ns acc = Inl err"
  shows "err \<noteq> OrientationError \<and> err \<noteq> LiteralEvalError"
  using assms
  by (induction ns arbitrary: acc) (auto split: sum.splits dest: level_dataset_errors)

lemma build_multiscales_errors:
  assumes "build_multiscales omz has_channel vxw vxh nblevel = Inl err"
  shows "err \<noteq> OrientationError \<and> err \<noteq> LiteralEvalError"
  using assms
  by (auto simp: build_multiscales_def split: sum.splits dest: level_datasets_errors)

lemma make_header_ok:
  assumes "make_header mk_affine a0 has_channel vxw vxh orientation center thickness = Inr h"
  shows "recognized orientation \<and> nh_data_shape h = header_shape (za_shape a0) has_channel
         \<and> nh_data_dtype h = za_dtype a0 \<and> nh_qform h = nh_sform h"
  using assms
  by (auto simp: make_header_def orientation_to_affine_def Let_def split: if_splits)

lemma make_header_error:
  "make_header mk_affine a0 has_channel vxw vxh orientation center thickness = Inl err
     \<longleftrightarrow> \<not> recognized orientation \<and> err = OrientationError"
  by (auto simp: make_header_def orientation_to_affine_def Let_def)

lemma write_nifti_ok:
  fixes omz :: "('a, 'c) group"
  assumes "write_nifti mk_affine tobytes omz has_channel vxw vxh orientation center thickness
             = (omz1, None)"
  shows "\<exists>a0 h. getitem omz ''0'' = Inr a0
           \<and> make_header mk_affine a0 has_channel vxw vxh orientation center thickness = Inr h
           \<and> omz1 = omz\<lparr>g_arrays := g_arrays omz @
                 [(''nifti'',
                   \<lparr>za_shape = header_shape (za_shape a0) has_channel,
                    za_chunks = [int (length (tobytes h))],
                    za_dimension_separator = ''/'',
                    za_order = ''F'',
                    za_dtype = ''|u1'',
                    za_compressor = None,
                    za_data = data_cells (map Byte (tobytes h))\<rparr>)]\<rparr>"
  using assms
  by (auto simp: write_nifti_def Let_def create_dataset_def split: sum.splits if_splits)

lemma write_nifti_error:
  fixes omz :: "('a, 'c) group"
  assumes "write_nifti mk_affine tobytes omz has_channel vxw vxh orientation center thickness
             = (omz1, Some err)"
  shows "omz1 = omz \<and> err \<noteq> LiteralEvalError
         \<and> (err = OrientationError \<longrightarrow> \<not> recognized orientation)"
  using assms
  by (auto simp: write_nifti_def Let_def create_dataset_def getitem_def make_header_error
           split: sum.splits if_splits option.splits)

lemma header_shape_channel:
  assumes "has_channel \<noteq> 0"
  shows "header_shape (lead @ [H, W]) has_channel = rev (lead @ [1, 1] @ [H, W])"
  using assms by (simp add: header_shape_def)

lemma multiscale_axes_channel:
  assumes "has_channel \<noteq> 0"
  shows "multiscale_axes has_channel =
           [\<lparr>ax_name = ''c'', ax_type = ''channel'', ax_unit = None\<rparr>,
            \<lparr>ax_name = ''y'', ax_type = ''space'', ax_unit = Some ''micrometer''\<rparr>,
            \<lparr>ax_name = ''x'', ax_type = ''space'', ax_unit = Some ''micrometer''\<rparr>]"
  using assms by (simp add: multiscale_axes_def)

lemma convert_success_multiscales:
  fixes env :: "('a, 'o, 'c) env" and omz :: "('a, 'c) group"
  assumes c: "convert env inp out chunk compressor compressor_opt max_load nii orientation
                center thickness = (og, None)"
  shows "\<exists>omz ms. og = Some omz \<and> g_multiscales omz = Some ms"
  using c unfolding convert_def Let_def
  by (auto split: prod.splits option.splits sum.splits if_splits dest: write_nifti_frame)

lemma convert_orientation_error:
  fixes env :: "('a, 'o, 'c) env" and omz :: "('a, 'c) group"
  assumes c: "convert env inp out chunk compressor compressor_opt max_load nii orientation
                center thickness = (og, Some OrientationError)"
  shows "\<not> recognized orientation \<and> snd (resolve_out inp out nii)
         \<and> (\<exists>omz ms. og = Some omz \<and> g_multiscales omz = Some ms)"
  using c unfolding convert_def Let_def
  by (auto split: prod.splits option.splits sum.splits if_splits
           simp: get_pixelsize_def
           dest: write_nifti_frame write_nifti_error write_levels_errors build_multiscales_errors)

lemma convert_nifti:
  fixes env :: "('a, 'o, 'c) env" and omz :: "('a, 'c) group"
  assumes c: "convert env inp out chunk compressor compressor_opt max_load nii orientation
                center thickness = (Some omz, None)"
    and v: "snd (resolve_out inp out nii)"
  shows "\<exists>codec vxw vxh h.
           0 < cs_num_res (env_Jp2k env inp)
         \<and> cs_pixelsize (env_Jp2k env inp) = Some (vxw, vxh)
         \<and> make_header (env_affine env)
              (level_array (env_Jp2k env inp) (level_opt (env_Jp2k env inp) chunk codec) max_load 0)
              (j2k_ndim (env_Jp2k env inp) - 2) vxw vxh orientation center thickness = Inr h
         \<and> g_arrays omz =
             map (\<lambda>l. (str l, level_array (env_Jp2k env inp)
                                 (level_opt (env_Jp2k env inp) chunk codec) max_load l))
                 [0..<cs_num_res (env_Jp2k env inp)] @
             [(''nifti'',
               \<lparr>za_shape = header_shape (level_shape (env_Jp2k env inp) 0)
                              (j2k_ndim (env_Jp2k env inp) - 2),
                za_chunks = [int (length (env_tobytes env h))],
                za_dimension_separator = ''/'',
                za_order = ''F'',
                za_dtype = ''|u1'',
                za_compressor = None,
                za_data = data_cells (map Byte (env_tobytes env h))\<rparr>)]"
proof -
  let ?j2k = "env_Jp2k env inp"
  let ?N = "cs_num_res ?j2k"
  let ?hc = "j2k_ndim ?j2k - 2"
  from convert_success_multiscales [OF c] obtain ms where m: "g_multiscales omz = Some ms"
    by auto
  from convert_written [OF c m] v obtain codec vxw vxh omz1 where
    vx: "cs_pixelsize ?j2k = Some (vxw, vxh)"
    and w: "write_levels ?j2k (level_opt ?j2k chunk codec) max_load [0..<?N]
              (new_group (fst (resolve_out inp out nii))) = (omz1, None)"
    and n: "write_nifti (env_affine env) (env_tobytes env)
                    (omz1\<lparr>g_multiscales := Some ms\<rparr>) ?hc vxw vxh orientation center thickness
                  = (omz, None)"
    by auto
  let ?f = "level_array ?j2k (level_opt ?j2k chunk codec) max_load"
  let ?lv = "map (\<lambda>l. (str l, ?f l)) [0..<?N]"
  have a1: "g_arrays (omz1\<lparr>g_multiscales := Some ms\<rparr>) = ?lv"
    using write_levels_ok [OF w] by (simp add: new_group_def)
  from write_nifti_ok [OF n] obtain a0 h where
    g: "getitem (omz1\<lparr>g_multiscales := Some ms\<rparr>) ''0'' = Inr a0"
    and h: "make_header (env_affine env) a0 ?hc vxw vxh orientation center thickness = Inr h"
    and o: "omz = omz1\<lparr>g_multiscales := Some ms,
                 g_arrays := g_arrays (omz1\<lparr>g_multiscales := Some ms\<rparr>) @
                 [(''nifti'',
                   \<lparr>za_shape = header_shape (za_shape a0) ?hc,
                    za_chunks = [int (length (env_tobytes env h))],
                    za_dimension_separator = ''/'',
                    za_order = ''F'',
                    za_dtype = ''|u1'',
                    za_compressor = None,
                    za_data = data_cells (map Byte (env_tobytes env h))\<rparr>)]\<rparr>"
    by auto
  have pos: "0 < ?N"
  proof (rule ccontr)
    assume "\<not> 0 < ?N"
    then have "?lv = []" by simp
    with a1 g show False by (simp add: getitem_def)
  qed
  have a0: "a0 = ?f 0"
    using getitem_level [OF a1 pos] g by (simp add: str_0)
  have "g_arrays omz = ?lv @
                 [(''nifti'',
                   \<lparr>za_shape = header_shape (za_shape a0) ?hc,
                    za_chunks = [int (length (env_tobytes env h))],
                    za_dimension_separator = ''/'',
                    za_order = ''F'',
                    za_dtype = ''|u1'',
                    za_compressor = None,
                    za_data = data_cells (map Byte (env_tobytes env h))\<rparr>)]"
    using o a1 by simp
  moreover have "za_shape a0 = level_shape ?j2k 0" by (simp add: a0 level_array_def)
  ultimately show ?thesis
    using pos vx h a0
    by (intro exI [of _ codec] exI [of _ vxw] exI [of _ vxh] exI [of _ h]) simp
qed

lemma convert_orientation_unused:
  fixes env :: "('a, 'o, 'c) env"
  assumes "\<not> snd (resolve_out inp out nii)"
  shows "convert env inp out chunk compressor compressor_opt max_load nii orientation center thickness
       = convert env inp out chunk compressor compressor_opt max_load nii orientation' center' thickness'"
proof -
  obtain out1 where r: "resolve_out inp out nii = (out1, False)"
    using assms by (cases "resolve_out inp out nii") auto
  show ?thesis
    by (simp add: convert_def r Let_def
             cong: option.case_cong sum.case_cong prod.case_cong)
qed

lemma convert_literal_eval_error:
  fixes env :: "('a, 'o, 'c) env"
  assumes "convert env inp out chunk compressor compressor_opt max_load nii orientation center
             thickness = (og, Some LiteralEvalError)"
  shows "og = None \<and> env_literal_eval env compressor_opt = None"
  using assms unfolding convert_def Let_def
  by (auto split: prod.splits option.splits sum.splits if_splits
           simp: get_pixelsize_def
           dest: write_nifti_error write_levels_errors build_multiscales_errors)

section \<open>Conversions that run to the end\<close>

lemma str_digits: "c \<in> set (str n) \<Longrightarrow> \<exists>d<10. c = digit d"
proof (induction n rule: str.induct)
  case (1 n)
  show ?case
  proof (cases "n < 10")
    case True
    with "1.prems" show ?thesis by (subst (asm) str.simps) auto
  next
    case False
    with "1.prems" have "c \<in> set (str (n div 10)) \<or> c = digit (n mod 10)"
      by (subst (asm) str.simps) auto
    then show ?thesis
    proof
      assume "c \<in> set (str (n div 10))"
      with False "1.IH" show ?thesis by simp
    next
      assume "c = digit (n mod 10)"
      then show ?thesis by (intro exI [of _ "n mod 10"]) simp
    qed
  qed
qed

lemma str_not_nifti: "str n \<noteq> ''nifti''"
proof
  assume "str n = ''nifti''"
  then have "CHR ''n'' \<in> set (str n)" by simp
  from str_digits [OF this] obtain d where d: "d < 10" "CHR ''n'' = digit d" by blast
  then have "digit_val (CHR ''n'') = d" by (simp add: digit_val_digit)
  moreover have "digit_val (CHR ''n'') = 62" by (simp add: digit_val_def)
  ultimately show False using d by simp
qed

lemma copy_level_succeeds:
  assumes "max_load \<noteq> Some 0" "2 \<le> length shape"
  shows "\<exists>d. copy_level max_load shape subdat array = Inr d"
  using assms
  by (cases max_load) (auto simp: copy_level_def copy_tiled_def ceildiv_def Let_def)

lemma write_level_succeeds:
  fixes omz :: "('a, 'c) group"
  assumes k: "str level \<notin> set (map fst (g_arrays omz))" and m: "max_load \<noteq> Some 0"
  shows "write_level j2k opt max_load level omz =
           (omz\<lparr>g_arrays := g_arrays omz @ [(str level, level_array j2k opt max_load level)]\<rparr>,
            None)"
proof -
  let ?k = "str level"
  let ?a = "\<lparr>za_shape = level_shape j2k level,
             za_chunks = opt_chunks opt,
             za_dimension_separator = opt_dimension_separator opt,
             za_order = opt_order opt,
             za_dtype = opt_dtype opt,
             za_compressor = opt_compressor opt,
             za_data = Map.empty\<rparr> :: ('a, 'c) zarray"
  let ?omz = "omz\<lparr>g_arrays := g_arrays omz @ [(?k, ?a)]\<rparr>"
  have c: "create_dataset omz ?k None (level_shape j2k level) opt = Inr ?omz"
    using k by (simp add: create_dataset_def)
  have g: "getitem ?omz ?k = Inr ?a"
    using getitem_new [OF k, of ?a] by (simp add: getitem_def del: map_of_append)
  have "2 \<le> length (level_shape j2k level)" by (simp add: level_shape_eq)
  from copy_level_succeeds [OF m this] obtain d where
    d: "copy_level max_load (level_shape j2k level) (\<lambda>idx. Pixel (cs_pixel j2k level idx)) Map.empty
          = Inr d" by blast
  have "write_level j2k opt max_load level omz = (set_data ?omz ?k d, None)"
    unfolding write_level_def Let_def by (simp only: c g d sum.case zarray.select_convs)
  also have "set_data ?omz ?k d = omz\<lparr>g_arrays := g_arrays omz @ [(?k, ?a\<lparr>za_data := d\<rparr>)]\<rparr>"
    unfolding set_data_def using set_data_new [OF k, of d ?a] by simp
  finally show ?thesis using d by (simp add: level_array_def)
qed

lemma write_levels_succeeds:
  fixes omz :: "('a, 'c) group"
  assumes "max_load \<noteq> Some 0" "distinct levels"
    and "\<forall>l\<in>set levels. str l \<notin> set (map fst (g_arrays omz))"
  shows "write_levels j2k opt max_load levels omz =
           (omz\<lparr>g_arrays := g_arrays omz @
                   map (\<lambda>l. (str l, level_array j2k opt max_load l)) levels\<rparr>, None)"
  using assms
proof (induction levels arbitrary: omz)
  case Nil
  then show ?case by simp
next
  case (Cons level levels)
  let ?omz = "omz\<lparr>g_arrays := g_arrays omz @ [(str level, level_array j2k opt max_load level)]\<rparr>"
  have w: "write_level j2k opt max_load level omz = (?omz, None)"
    using Cons.prems by (intro write_level_succeeds) simp_all
  have "\<forall>l\<in>set levels. str l \<notin> set (map fst (g_arrays ?omz))"
    using Cons.prems by (auto dest: str_inj)
  with Cons.prems have "write_levels j2k opt max_load levels ?omz =
           (?omz\<lparr>g_arrays := g_arrays ?omz @
                   map (\<lambda>l. (str l, level_array j2k opt max_load l)) levels\<rparr>, None)"
    by (intro Cons.IH) simp_all
  with w show ?case by simp
qed

lemma level_datasets_succeeds:
  assumes "\<forall>n\<in>set ns. level_dataset omz has_channel vxw vxh n = Inr (f n)"
  shows "level_datasets omz has_channel vxw vxh ns acc = Inr (acc @ map f ns)"
  using assms by (induction ns arbitrary: acc) simp_all

lemma convert_succeeds:
  fixes env :: "('a, 'o, 'c) env"
  assumes l: "env_literal_eval env compressor_opt = Some copt"
    and p: "cs_pixelsize (env_Jp2k env inp) = Some (vxw, vxh)"
    and k: "env_make_compressor env compressor copt = Some codec"
    and m: "max_load \<noteq> Some 0"
    and z: "\<forall>n<cs_num_res (env_Jp2k env inp).
               cs_decim (env_Jp2k env inp) n (cs_rows (env_Jp2k env inp)) \<noteq> 0
             \<and> cs_decim (env_Jp2k env inp) n (cs_cols (env_Jp2k env inp)) \<noteq> 0"
    and v: "snd (resolve_out inp out nii) \<longrightarrow>
              recognized orientation \<and> 0 < cs_num_res (env_Jp2k env inp)"
  shows "\<exists>omz. convert env inp out chunk compressor compressor_opt max_load nii orientation
                 center thickness = (Some omz, None)"
proof -
  let ?j2k = "env_Jp2k env inp"
  let ?N = "cs_num_res ?j2k"
  let ?hc = "j2k_ndim ?j2k - 2"
  let ?opt = "level_opt ?j2k chunk codec :: 'c array_opt"
  obtain out1 nii1 where r: "resolve_out inp out nii = (out1, nii1)"
    by (cases "resolve_out inp out nii")
  let ?lv = "map (\<lambda>l. (str l, level_array ?j2k ?opt max_load l)) [0..<?N]"
  let ?omz1 = "(new_group out1 :: ('a, 'c) group)\<lparr>g_arrays := ?lv\<rparr>"
  have w: "write_levels ?j2k ?opt max_load [0..<?N] (new_group out1) = (?omz1, None)"
    using write_levels_succeeds [OF m, of "[0..<?N]" "new_group out1" ?j2k ?opt]
    by (simp add: new_group_def)
  have a1: "g_arrays ?omz1 = ?lv" by simp
  have "\<forall>n\<in>set [0..<?N]. level_dataset ?omz1 ?hc vxw vxh n = Inr (level_entry ?j2k ?hc vxw vxh n)"
    using z level_dataset_written [OF a1, of _ ?hc vxw vxh] by simp
  from level_datasets_succeeds [OF this, of "[]"]
  obtain mss where b: "build_multiscales ?omz1 ?hc vxw vxh ?N = Inr mss"
    by (simp add: build_multiscales_def)
  let ?omz2 = "?omz1\<lparr>g_multiscales := Some mss\<rparr>"
  have gp: "get_pixelsize ?j2k = Inr (vxw, vxh)" using p by (simp add: get_pixelsize_def)
  show ?thesis
  proof (cases nii1)
    case False
    then show ?thesis
      by (simp add: convert_def r l gp k w b Let_def)
  next
    case True
    with v r have rec: "recognized orientation" and pos: "0 < ?N" by simp_all
    have g0: "getitem ?omz2 ''0'' = Inr (level_array ?j2k ?opt max_load 0)"
      using getitem_level [of ?omz2 ?j2k ?opt max_load ?N 0] pos by (simp add: str_0)
    obtain h where h: "make_header (env_affine env) (level_array ?j2k ?opt max_load 0) ?hc vxw vxh
                         orientation center thickness = Inr h"
      using rec by (simp add: make_header_def orientation_to_affine_def Let_def)
    have nk: "''nifti'' \<notin> set (map fst (g_arrays ?omz2))"
    proof
      assume "''nifti'' \<in> set (map fst (g_arrays ?omz2))"
      then obtain x where "str x = ''nifti''" by (auto simp: comp_def)
      with str_not_nifti [of x] show False by simp
    qed
    have "\<exists>omz3. write_nifti (env_affine env) (env_tobytes env) ?omz2 ?hc vxw vxh orientation
                    center thickness = (omz3, None)"
      unfolding write_nifti_def g0 using h nk
      by (simp add: Let_def create_dataset_def)
    then obtain omz3 where "write_nifti (env_affine env) (env_tobytes env) ?omz2 ?hc vxw vxh
                    orientation center thickness = (omz3, None)" by blast
    with True show ?thesis
      by (simp add: convert_def r l gp k w b Let_def)
  qed
qed

section \<open>The claims\<close>

text \<open>
  Claim C1 (tiling equivalence). For every level shape (at least the two spatial
  dimensions) and every positive \<open>max_load\<close>: the tiled loop returns, and the content
  it leaves is the content of the single whole-plane copy; the loop is the sequence
  of assignments of the tiles \<open>tiles max_load H W\<close>; \<open>copy_level\<close> gives the same array
  for \<open>max_load\<close> set and unset; every spatial index of the level lies in exactly one
  tile of the loop; and the whole conversion gives the same result with \<open>max_load\<close>
  set as with \<open>max_load\<close> unset.
\<close>

theorem tiling_equivalence:
  assumes "2 \<le> length shape" and "0 < max_load"
  shows "copy_tiled max_load shape subdat array = Inr (copy_whole shape subdat array)
       \<and> copy_tiled max_load shape subdat array =
           Inr (fold (\<lambda>(rows, cols) d. assign d (tile_indices shape rows cols) subdat)
                  (tiles max_load (shape ! (length shape - 2)) (shape ! (length shape - 1)))
                  array)
       \<and> copy_level (Some max_load) shape subdat array = copy_level None shape subdat array
       \<and> (\<forall>r < shape ! (length shape - 2). \<forall>c < shape ! (length shape - 1).
            length (filter (\<lambda>(rows, cols). r \<in> set rows \<and> c \<in> set cols)
                      (tiles max_load (shape ! (length shape - 2)) (shape ! (length shape - 1)))) = 1)
       \<and> convert env inp out chunk compressor compressor_opt (Some max_load) nii orientation
            center thickness
          = convert env inp out chunk compressor compressor_opt None nii orientation
            center thickness"
proof (intro conjI allI impI)
  show "copy_tiled max_load shape subdat array = Inr (copy_whole shape subdat array)"
    using assms by (rule copy_tiled_whole)
  show "copy_tiled max_load shape subdat array =
           Inr (fold (\<lambda>(rows, cols) d. assign d (tile_indices shape rows cols) subdat)
                  (tiles max_load (shape ! (length shape - 2)) (shape ! (length shape - 1)))
                  array)"
    using assms by (intro copy_tiled_tiles) simp_all
  show "copy_level (Some max_load) shape subdat array = copy_level None shape subdat array"
    using assms by (simp add: copy_level_whole copy_level_None)
  show "convert env inp out chunk compressor compressor_opt (Some max_load) nii orientation
            center thickness
          = convert env inp out chunk compressor compressor_opt None nii orientation
            center thickness"
    using assms(2) by (rule convert_max_load)
next
  fix r c
  assume "r < shape ! (length shape - 2)" "c < shape ! (length shape - 1)"
  with assms(2) show "length (filter (\<lambda>(rows, cols). r \<in> set rows \<and> c \<in> set cols)
                      (tiles max_load (shape ! (length shape - 2)) (shape ! (length shape - 1)))) = 1"
    by (rule tiles_cover_once)
qed

theorem tiling_equivalence_witness:
  "2 \<le> length [3, 5, 7 :: nat] \<and> (0 :: int) < 4
   \<and> copy_tiled 4 [3, 5, 7] (\<lambda>idx. sum_list idx) Map.empty
       = Inr (copy_whole [3, 5, 7] (\<lambda>idx. sum_list idx) Map.empty)
   \<and> length (filter (\<lambda>(rows, cols). 4 \<in> set rows \<and> 6 \<in> set cols) (tiles 4 5 7)) = 1
   \<and> demo_convert (Some 4) True ''coronal'' ''{}'' = demo_convert None True ''coronal'' ''{}''"
proof -
  have h1: "2 \<le> length [3, 5, 7 :: nat]" by simp
  have h2: "(0 :: int) < 4" by simp
  show ?thesis
    using tiling_equivalence [OF h1 h2, of "\<lambda>idx. sum_list idx" Map.empty demo_env "''slice.jp2''"
            None 1024 "''blosc''" "''{}''" True "''coronal''" True None]
    by (simp add: demo_convert_def)
qed

text \<open>
  Claim C2 (geometric invariant). In every conversion that wrote the multiscale
  descriptor, with pixel size \<open>(voxelWidth, voxelHeight)\<close>, level 0 of spatial shape
  \<open>(H0, W0)\<close> and level \<open>n\<close> of spatial shape \<open>(Hn, Wn)\<close>: entry \<open>n\<close> of the datasets has
  scale \<open>(H0/Hn * voxelHeight, W0/Wn * voxelWidth)\<close> and translation
  \<open>((H0/Hn - 1) * voxelHeight / 2, (W0/Wn - 1) * voxelWidth / 2)\<close> on its spatial
  components, after the channel components; at level 0 the scale is the voxel size
  and the translation is zero. Python's floats are read as real numbers.
\<close>

theorem level_scale_translation:
  fixes env :: "('a, 'o, 'c) env" and omz :: "('a, 'c) group"
  assumes c: "convert env inp out chunk compressor compressor_opt max_load nii orientation
                center thickness = (Some omz, e)"
    and m: "g_multiscales omz = Some multiscales"
    and vx: "get_pixelsize (env_Jp2k env inp) = Inr (voxelWidth, voxelHeight)"
    and s0: "last2 (level_shape (env_Jp2k env inp) 0) = [H0, W0]"
    and n: "n < cs_num_res (env_Jp2k env inp)"
    and sn: "last2 (level_shape (env_Jp2k env inp) n) = [Hn, Wn]"
  shows "\<exists>ms. multiscales = [ms]
           \<and> length (ms_datasets ms) = cs_num_res (env_Jp2k env inp)
           \<and> ds_transforms (ms_datasets ms ! n) =
               [Scale (replicate (length (cs_comps (env_Jp2k env inp))) 1 @
                  [real H0 / real Hn * voxelHeight, real W0 / real Wn * voxelWidth]),
                Translation (replicate (length (cs_comps (env_Jp2k env inp))) 0 @
                  [(real H0 / real Hn - 1) * voxelHeight / 2,
                   (real W0 / real Wn - 1) * voxelWidth / 2])]
           \<and> (n = 0 \<longrightarrow>
                ds_transforms (ms_datasets ms ! n) =
                  [Scale (replicate (length (cs_comps (env_Jp2k env inp))) 1 @
                     [voxelHeight, voxelWidth]),
                   Translation (replicate (length (cs_comps (env_Jp2k env inp))) 0 @ [0, 0])])"
proof -
  let ?j2k = "env_Jp2k env inp"
  from convert_result [OF c m] obtain vxw vxh where
    p: "cs_pixelsize ?j2k = Some (vxw, vxh)"
    and nz: "\<forall>k<cs_num_res ?j2k. cs_decim ?j2k k (cs_rows ?j2k) \<noteq> 0
               \<and> cs_decim ?j2k k (cs_cols ?j2k) \<noteq> 0"
    and ms: "multiscales =
             [\<lparr>ms_version = ''0.4'',
               ms_axes = multiscale_axes (j2k_ndim ?j2k - 2),
               ms_datasets = map (level_entry ?j2k (j2k_ndim ?j2k - 2) vxw vxh) [0..<cs_num_res ?j2k],
               ms_type = ''jpeg2000'',
               ms_name = [],
               ms_transforms = [Scale (replicate (nat (2 + (j2k_ndim ?j2k - 2))) 1)]\<rparr>]"
    by blast
  from p vx have v: "vxw = voxelWidth" "vxh = voxelHeight" by (simp_all add: get_pixelsize_def)
  from s0 have h0: "cs_decim ?j2k 0 (cs_rows ?j2k) = H0" "cs_decim ?j2k 0 (cs_cols ?j2k) = W0"
    by (simp_all add: last2_level_shape)
  from sn have hn: "cs_decim ?j2k n (cs_rows ?j2k) = Hn" "cs_decim ?j2k n (cs_cols ?j2k) = Wn"
    by (simp_all add: last2_level_shape)
  from nz n hn have pos: "Hn \<noteq> 0" "Wn \<noteq> 0" by auto
  have t: "ds_transforms (level_entry ?j2k (j2k_ndim ?j2k - 2) vxw vxh n) =
               [Scale (replicate (length (cs_comps ?j2k)) 1 @
                  [real H0 / real Hn * voxelHeight, real W0 / real Wn * voxelWidth]),
                Translation (replicate (length (cs_comps ?j2k)) 0 @
                  [(real H0 / real Hn - 1) * voxelHeight / 2,
                   (real W0 / real Wn - 1) * voxelWidth / 2])]"
    by (simp add: level_entry_def Let_def h0 hn v has_channel_eq)
  have z: "n = 0 \<Longrightarrow> real H0 / real Hn = 1 \<and> real W0 / real Wn = 1"
    using h0 hn pos by auto
  show ?thesis
    using n t z by (intro exI [of _ "hd multiscales"]) (auto simp: ms)
qed

theorem level_scale_translation_witness:
  "\<exists>ms. the (g_multiscales (the (fst (demo_convert (Some 4) True ''coronal'' ''{}'')))) = [ms]
     \<and> ds_transforms (ms_datasets ms ! 1) =
         [Scale [1, 5 / 3 * (1 / 2), 7 / 4 * (1 / 2)],
          Translation [0, (5 / 3 - 1) * (1 / 2) / 2, (7 / 4 - 1) * (1 / 2) / 2]]"
proof -
  let ?omz = "the (fst (demo_convert (Some 4) True ''coronal'' ''{}''))"
  have c: "convert demo_env ''slice.jp2'' None 1024 ''blosc'' ''{}'' (Some 4) True ''coronal'' True None
             = (Some ?omz, None)"
    using demo_run by (simp add: demo_convert_def)
  have m: "g_multiscales ?omz = Some (the (g_multiscales ?omz))"
    using demo_ms by simp
  have vx: "get_pixelsize (env_Jp2k demo_env ''slice.jp2'') = Inr (1 / 2, 1 / 2)" by code_simp
  have s0: "last2 (level_shape (env_Jp2k demo_env ''slice.jp2'') 0) = [5, 7]" by code_simp
  have n: "1 < cs_num_res (env_Jp2k demo_env ''slice.jp2'')" by code_simp
  have sn: "last2 (level_shape (env_Jp2k demo_env ''slice.jp2'') 1) = [3, 4]" by code_simp
  have l: "length (cs_comps (env_Jp2k demo_env ''slice.jp2'')) = 1" by code_simp
  show ?thesis
    using level_scale_translation [OF c m vx s0 n sn] l by auto
qed




text \<open>
  Claim C5, as stated, at \<open>demo_j2k\<close> with the unrecognized orientation \<open>XY\<close>: with
  the header variant the conversion raises only after the three level arrays are in
  the store; without it the conversion does not raise at all.
\<close>

theorem config_error_counterexample:
  "\<not> recognized ''XY''
   \<and> snd (demo_convert (Some 4) True ''XY'' ''{}'') = Some OrientationError
   \<and> map fst (g_arrays (the (fst (demo_convert (Some 4) True ''XY'' ''{}'')))) = [''0'', ''1'', ''2'']
   \<and> snd (demo_convert (Some 4) False ''XY'' ''{}'') = None"
  by code_simp

text \<open>
  Claim C5, amended (configuration errors). An options string that \<open>literal_eval\<close>
  rejects ends the conversion before the destination store is opened, and only that
  error leaves the store unopened in this way. An unrecognized orientation code is
  raised only when the header variant is in effect, and then after every level array
  and the multiscale descriptor have been written; with the header variant in effect
  such a conversion never succeeds; without it the orientation is not examined, and
  the result is the one any other orientation gives.
\<close>

theorem config_errors:
  fixes env :: "('a, 'o, 'c) env"
  shows "(env_literal_eval env compressor_opt = None \<longrightarrow>
            convert env inp out chunk compressor compressor_opt max_load nii orientation center
              thickness = (None, Some LiteralEvalError))
       \<and> (convert env inp out chunk compressor compressor_opt max_load nii orientation center
              thickness = (og, Some LiteralEvalError) \<longrightarrow> og = None)
       \<and> (convert env inp out chunk compressor compressor_opt max_load nii orientation center
              thickness = (og, Some OrientationError) \<longrightarrow>
            \<not> recognized orientation \<and> snd (resolve_out inp out nii)
            \<and> (\<exists>omz ms. og = Some omz \<and> g_multiscales omz = Some ms
                  \<and> map fst (g_arrays omz) = map str [0..<cs_num_res (env_Jp2k env inp)]))
       \<and> (\<not> recognized orientation \<and> snd (resolve_out inp out nii) \<longrightarrow>
            snd (convert env inp out chunk compressor compressor_opt max_load nii orientation
                   center thickness) \<noteq> None)
       \<and> (\<not> snd (resolve_out inp out nii) \<longrightarrow>
            convert env inp out chunk compressor compressor_opt max_load nii orientation center
              thickness
            = convert env inp out chunk compressor compressor_opt max_load nii ''coronal'' center
              thickness)"
proof (intro conjI impI)
  assume "env_literal_eval env compressor_opt = None"
  then show "convert env inp out chunk compressor compressor_opt max_load nii orientation center
              thickness = (None, Some LiteralEvalError)"
    by (simp add: convert_def split: prod.splits)
next
  assume "convert env inp out chunk compressor compressor_opt max_load nii orientation center
              thickness = (og, Some LiteralEvalError)"
  from convert_literal_eval_error [OF this] show "og = None" by simp
next
  assume c: "convert env inp out chunk compressor compressor_opt max_load nii orientation center
              thickness = (og, Some OrientationError)"
  from convert_orientation_error [OF c]
  show "\<not> recognized orientation" and "snd (resolve_out inp out nii)" by simp_all
  from convert_orientation_error [OF c] obtain omz ms where
    o: "og = Some omz" and m: "g_multiscales omz = Some ms" by blast
  from convert_result [OF c [unfolded o] m]
  have "map fst (g_arrays omz) = map str [0..<cs_num_res (env_Jp2k env inp)]"
    by (auto simp: comp_def)
  with o m show "\<exists>omz ms. og = Some omz \<and> g_multiscales omz = Some ms
                  \<and> map fst (g_arrays omz) = map str [0..<cs_num_res (env_Jp2k env inp)]"
    by blast
next
  assume a: "\<not> recognized orientation \<and> snd (resolve_out inp out nii)"
  show "snd (convert env inp out chunk compressor compressor_opt max_load nii orientation
                   center thickness) \<noteq> None"
  proof
    assume n: "snd (convert env inp out chunk compressor compressor_opt max_load nii orientation
                   center thickness) = None"
    then obtain og where c: "convert env inp out chunk compressor compressor_opt max_load nii
                   orientation center thickness = (og, None)"
      by (cases "convert env inp out chunk compressor compressor_opt max_load nii
                   orientation center thickness") simp
    from convert_success_multiscales [OF c] obtain omz where "og = Some omz" by blast
    with c have c': "convert env inp out chunk compressor compressor_opt max_load nii
                   orientation center thickness = (Some omz, None)" by simp
    from a have v: "snd (resolve_out inp out nii)" by simp
    from convert_nifti [OF c' v] obtain codec :: "'c option" and vxw vxh h where
      "make_header (env_affine env)
         (level_array (env_Jp2k env inp) (level_opt (env_Jp2k env inp) chunk codec) max_load 0)
         (j2k_ndim (env_Jp2k env inp) - 2) vxw vxh orientation center thickness = Inr h"
      by blast
    from make_header_ok [OF this] a show False by simp
  qed
next
  assume "\<not> snd (resolve_out inp out nii)"
  then show "convert env inp out chunk compressor compressor_opt max_load nii orientation center
              thickness
            = convert env inp out chunk compressor compressor_opt max_load nii ''coronal'' center
              thickness"
    by (rule convert_orientation_unused)
qed

theorem config_errors_witness:
  "demo_convert (Some 4) True ''coronal'' ''{'' = (None, Some LiteralEvalError)
   \<and> \<not> recognized ''XY'' \<and> snd (resolve_out ''slice.jp2'' None True)
   \<and> map fst (g_arrays (the (fst (demo_convert (Some 4) True ''XY'' ''{}'')))) = map str [0..<3]
   \<and> snd (demo_convert (Some 4) True ''XY'' ''{}'') \<noteq> None
   \<and> demo_convert (Some 4) False ''XY'' ''{}'' = demo_convert (Some 4) False ''coronal'' ''{}''"
proof -
  let ?X = "demo_convert (Some 4) True ''XY'' ''{}''"
  have l: "env_literal_eval demo_env ''{'' = None" by code_simp
  have s: "snd ?X = Some OrientationError" by code_simp
  have c: "convert demo_env ''slice.jp2'' None 1024 ''blosc'' ''{}'' (Some 4) True ''XY'' True None
             = (fst ?X, Some OrientationError)"
    using s by (cases ?X) (simp add: demo_convert_def)
  have v: "\<not> snd (resolve_out ''slice.jp2'' None False)" by code_simp
  have w1: "demo_convert (Some 4) True ''coronal'' ''{'' = (None, Some LiteralEvalError)"
    using config_errors [of demo_env "''{''" "''slice.jp2''" None 1024 "''blosc''" "Some 4" True
              "''coronal''" True None, THEN conjunct1] l
    by (simp add: demo_convert_def)
  have w2: "\<not> recognized ''XY'' \<and> snd (resolve_out ''slice.jp2'' None True)
            \<and> (\<exists>omz ms. fst ?X = Some omz \<and> g_multiscales omz = Some ms
                  \<and> map fst (g_arrays omz) = map str [0..<cs_num_res (env_Jp2k demo_env ''slice.jp2'')])"
    using config_errors [of demo_env "''{}''" "''slice.jp2''" None 1024 "''blosc''" "Some 4" True
              "''XY''" True None "fst ?X", THEN conjunct2, THEN conjunct2, THEN conjunct1] c
    by blast
  then have w3: "map fst (g_arrays (the (fst ?X))) = map str [0..<3]"
    unfolding demo_levels by auto
  have w4: "snd ?X \<noteq> None"
    using config_errors [of demo_env "''{}''" "''slice.jp2''" None 1024 "''blosc''" "Some 4" True
              "''XY''" True None, THEN conjunct2, THEN conjunct2, THEN conjunct2, THEN conjunct1] w2
    by (simp add: demo_convert_def)
  have w5: "demo_convert (Some 4) False ''XY'' ''{}'' = demo_convert (Some 4) False ''coronal'' ''{}''"
    using config_errors [of demo_env "''{}''" "''slice.jp2''" None 1024 "''blosc''" "Some 4" False
              "''XY''" True None, THEN conjunct2, THEN conjunct2, THEN conjunct2, THEN conjunct2] v
    by (simp add: demo_convert_def)
  from w1 w2 w3 w4 w5 show ?thesis by blast
qed

text \<open>
  Claim C6, as stated, at \<open>demo_j2k\<close>: the level-0 shape is \<open>(3, 5, 7)\<close>; with two
  singleton dimensions inserted after the channel dimension it is \<open>(3, 1, 1, 5, 7)\<close>;
  the data shape of the header is \<open>(7, 5, 1, 1, 3)\<close>.
\<close>

theorem header_shape_counterexample:
  "level_shape demo_j2k 0 = [3, 5, 7]
   \<and> header_shape (level_shape demo_j2k 0) (j2k_ndim demo_j2k - 2) = [7, 5, 1, 1, 3]
   \<and> take 1 (level_shape demo_j2k 0) @ [1, 1] @ drop 1 (level_shape demo_j2k 0) = [3, 1, 1, 5, 7]
   \<and> header_shape (level_shape demo_j2k 0) (j2k_ndim demo_j2k - 2)
       \<noteq> take 1 (level_shape demo_j2k 0) @ [1, 1] @ drop 1 (level_shape demo_j2k 0)"
  by code_simp

text \<open>
  Claim C6, amended (channel axis, header shape). In every conversion that succeeds
  on a codestream with leading channel dimensions, the axes of the descriptor are
  \<open>c, y, x\<close>; and when the header variant is in effect, the header whose bytes are
  stored under \<open>nifti\<close> has as data shape the reverse of the level-0 shape with two
  singleton dimensions inserted after the channel dimensions: \<open>(W0, H0, 1, 1)\<close>
  followed by the channel dimensions reversed.
\<close>

theorem channel_axes_and_header_shape:
  fixes env :: "('a, 'o, 'c) env" and omz :: "('a, 'c) group"
  assumes c: "convert env inp out chunk compressor compressor_opt max_load nii orientation
                center thickness = (Some omz, None)"
    and ch: "cs_comps (env_Jp2k env inp) \<noteq> []"
    and s0: "last2 (level_shape (env_Jp2k env inp) 0) = [H0, W0]"
  shows "(\<exists>ms. g_multiscales omz = Some [ms]
            \<and> ms_axes ms =
                [\<lparr>ax_name = ''c'', ax_type = ''channel'', ax_unit = None\<rparr>,
                 \<lparr>ax_name = ''y'', ax_type = ''space'', ax_unit = Some ''micrometer''\<rparr>,
                 \<lparr>ax_name = ''x'', ax_type = ''space'', ax_unit = Some ''micrometer''\<rparr>])
       \<and> level_shape (env_Jp2k env inp) 0 = cs_comps (env_Jp2k env inp) @ [H0, W0]
       \<and> (snd (resolve_out inp out nii) \<longrightarrow>
            (\<exists>h a. last (g_arrays omz) = (''nifti'', a)
                  \<and> za_data a = data_cells (map Byte (env_tobytes env h))
                  \<and> nh_data_shape h = rev (cs_comps (env_Jp2k env inp) @ [1, 1] @ [H0, W0])
                  \<and> nh_data_shape h = [W0, H0, 1, 1] @ rev (cs_comps (env_Jp2k env inp))))"
proof -
  let ?j2k = "env_Jp2k env inp"
  let ?hc = "j2k_ndim ?j2k - 2"
  have hc: "?hc \<noteq> 0" using ch by (simp add: j2k_ndim_def j2k_shape_def)
  from convert_success_multiscales [OF c] obtain mss where m: "g_multiscales omz = Some mss"
    by auto
  from convert_result [OF c m] have
    "\<exists>ms. mss = [ms] \<and> ms_axes ms = multiscale_axes ?hc" by auto
  with m have A: "\<exists>ms. g_multiscales omz = Some [ms]
            \<and> ms_axes ms =
                [\<lparr>ax_name = ''c'', ax_type = ''channel'', ax_unit = None\<rparr>,
                 \<lparr>ax_name = ''y'', ax_type = ''space'', ax_unit = Some ''micrometer''\<rparr>,
                 \<lparr>ax_name = ''x'', ax_type = ''space'', ax_unit = Some ''micrometer''\<rparr>]"
    by (auto simp: multiscale_axes_channel [OF hc])
  from s0 have "cs_decim ?j2k 0 (cs_rows ?j2k) = H0 \<and> cs_decim ?j2k 0 (cs_cols ?j2k) = W0"
    unfolding last2_level_shape by simp
  then have l0: "level_shape ?j2k 0 = cs_comps ?j2k @ [H0, W0]"
    by (simp add: level_shape_eq)
  have B: "\<exists>h a. last (g_arrays omz) = (''nifti'', a)
                  \<and> za_data a = data_cells (map Byte (env_tobytes env h))
                  \<and> nh_data_shape h = rev (cs_comps ?j2k @ [1, 1] @ [H0, W0])
                  \<and> nh_data_shape h = [W0, H0, 1, 1] @ rev (cs_comps ?j2k)"
    if v: "snd (resolve_out inp out nii)"
  proof -
    from convert_nifti [OF c v] obtain codec vxw vxh h where
      h: "make_header (env_affine env)
              (level_array ?j2k (level_opt ?j2k chunk codec) max_load 0)
              ?hc vxw vxh orientation center thickness = Inr h"
      and a: "g_arrays omz =
             map (\<lambda>l. (str l, level_array ?j2k (level_opt ?j2k chunk codec) max_load l))
                 [0..<cs_num_res ?j2k] @
             [(''nifti'',
               \<lparr>za_shape = header_shape (level_shape ?j2k 0) ?hc,
                za_chunks = [int (length (env_tobytes env h))],
                za_dimension_separator = ''/'',
                za_order = ''F'',
                za_dtype = ''|u1'',
                za_compressor = None,
                za_data = data_cells (map Byte (env_tobytes env h))\<rparr>)]"
      by blast
    from make_header_ok [OF h] have
      "nh_data_shape h = header_shape (level_shape ?j2k 0) ?hc"
      by (simp add: level_array_def)
    then have "nh_data_shape h = rev (cs_comps ?j2k @ [1, 1] @ [H0, W0])"
      unfolding l0 using header_shape_channel [OF hc] by simp
    then show ?thesis using a by (intro exI [of _ h]) simp
  qed
  from A l0 B show ?thesis by blast
qed

theorem channel_axes_and_header_shape_witness:
  "(\<exists>ms. g_multiscales (the (fst (demo_convert (Some 4) True ''coronal'' ''{}''))) = Some [ms]
        \<and> map ax_name (ms_axes ms) = [''c'', ''y'', ''x''])
   \<and> (\<exists>h a. last (g_arrays (the (fst (demo_convert (Some 4) True ''coronal'' ''{}'')))) = (''nifti'', a)
          \<and> za_data a = data_cells (map Byte (env_tobytes demo_env h))
          \<and> nh_data_shape h = [7, 5, 1, 1, 3])"
proof -
  let ?omz = "the (fst (demo_convert (Some 4) True ''coronal'' ''{}''))"
  have c: "convert demo_env ''slice.jp2'' None 1024 ''blosc'' ''{}'' (Some 4) True ''coronal'' True None
             = (Some ?omz, None)"
    using demo_run by (simp add: demo_convert_def)
  have ch: "cs_comps (env_Jp2k demo_env ''slice.jp2'') \<noteq> []" by code_simp
  have s0: "last2 (level_shape (env_Jp2k demo_env ''slice.jp2'') 0) = [5, 7]" by code_simp
  have v: "snd (resolve_out ''slice.jp2'' None True)" by code_simp
  show ?thesis
    using channel_axes_and_header_shape [OF c ch s0] v demo_comps by auto
qed

text \<open>
  Claim C7 (default output path, forced flag). When no output path is given, the
  output path is the input path with its extension (as \<open>os.path.splitext\<close> splits it
  off) replaced by \<open>.ome.zarr\<close>, or by \<open>.nii.zarr\<close> when the header variant is
  requested; and whenever the output path, given or derived, ends in \<open>.nii.zarr\<close>, the
  flag is true after line 96: it is the requested flag or that test.
\<close>

theorem output_path_and_flag:
  "(out = None \<longrightarrow>
      fst (resolve_out inp out nii)
        = fst (splitext inp) @ (if nii then ''.nii.zarr'' else ''.ome.zarr'')
      \<and> fst (splitext inp) @ snd (splitext inp) = inp)
   \<and> (endswith (fst (resolve_out inp out nii)) ''.nii.zarr'' \<longrightarrow> snd (resolve_out inp out nii))
   \<and> (snd (resolve_out inp out nii)
        \<longleftrightarrow> nii \<or> endswith (fst (resolve_out inp out nii)) ''.nii.zarr'')"
  by (simp add: resolve_out_def Let_def fst_snd_splitext split: option.splits)

theorem output_path_and_flag_witness:
  "fst (resolve_out ''/data/slice.jp2'' None False) = fst (splitext ''/data/slice.jp2'') @ ''.ome.zarr''
   \<and> fst (resolve_out ''/data/slice.jp2'' None False) = ''/data/slice.ome.zarr''
   \<and> endswith (fst (resolve_out ''/data/slice.jp2'' (Some ''/out/a.nii.zarr'') False)) ''.nii.zarr''
   \<and> snd (resolve_out ''/data/slice.jp2'' (Some ''/out/a.nii.zarr'') False)"
proof -
  have e: "endswith (fst (resolve_out ''/data/slice.jp2'' (Some ''/out/a.nii.zarr'') False)) ''.nii.zarr''"
    by code_simp
  have r: "fst (splitext ''/data/slice.jp2'') = ''/data/slice''"
    by code_simp
  show ?thesis
    using output_path_and_flag [of None "''/data/slice.jp2''" False]
          output_path_and_flag [of "Some ''/out/a.nii.zarr''" "''/data/slice.jp2''" False] e r
    by simp
qed

text \<open>
  Claim C8 (centering idempotence). For every affine and every shape of the field of
  view, centering twice gives the affine that centering once gives.
\<close>

theorem center_affine_idempotent:
  "center_affine (center_affine affine shape) shape = center_affine affine shape"
proof -
  let ?f = "center_row (fov_center shape)"
  have t: "take 3 (map ?f (take 3 affine) @ drop 3 affine) = map ?f (take 3 affine)"
    by (cases "3 \<le> length affine") simp_all
  have d: "drop 3 (map ?f (take 3 affine) @ drop 3 affine) = drop 3 affine"
    by (cases "3 \<le> length affine") simp_all
  show ?thesis
    unfolding center_affine_def t d by (simp add: center_row_idem)
qed

text \<open>
  Claim C9 (datasets follow the levels). In every conversion that wrote the
  multiscale descriptor, the datasets list has one entry per level, in the order
  \<open>0, \<dots>, nblevel - 1\<close>; the path of entry \<open>n\<close> is the decimal string of \<open>n\<close>, and it is
  the key under which the store holds the array created for level \<open>n\<close> (the \<open>n\<close>-th
  array created, of the shape of the level view).
\<close>

theorem datasets_follow_levels:
  fixes env :: "('a, 'o, 'c) env" and omz :: "('a, 'c) group"
  assumes c: "convert env inp out chunk compressor compressor_opt max_load nii orientation
                center thickness = (Some omz, e)"
    and m: "g_multiscales omz = Some multiscales"
  shows "\<exists>ms. multiscales = [ms]
           \<and> map ds_path (ms_datasets ms) = map str [0..<cs_num_res (env_Jp2k env inp)]
           \<and> (\<forall>n<cs_num_res (env_Jp2k env inp).
                 nat_of_str (ds_path (ms_datasets ms ! n)) = n
               \<and> (\<exists>a. g_arrays omz ! n = (ds_path (ms_datasets ms ! n), a)
                      \<and> getitem omz (ds_path (ms_datasets ms ! n)) = Inr a
                      \<and> za_shape a = level_shape (env_Jp2k env inp) n))"
proof -
  let ?j2k = "env_Jp2k env inp"
  let ?N = "cs_num_res ?j2k"
  from convert_result [OF c m] obtain codec vxw vxh rest where
    a: "g_arrays omz =
          map (\<lambda>l. (str l, level_array ?j2k (level_opt ?j2k chunk codec) max_load l)) [0..<?N] @ rest"
    and ms: "multiscales =
             [\<lparr>ms_version = ''0.4'',
               ms_axes = multiscale_axes (j2k_ndim ?j2k - 2),
               ms_datasets = map (level_entry ?j2k (j2k_ndim ?j2k - 2) vxw vxh) [0..<?N],
               ms_type = ''jpeg2000'',
               ms_name = [],
               ms_transforms = [Scale (replicate (nat (2 + (j2k_ndim ?j2k - 2))) 1)]\<rparr>]"
    by blast
  have p: "\<And>n. ds_path (level_entry ?j2k (j2k_ndim ?j2k - 2) vxw vxh n) = str n"
    by (simp add: level_entry_def Let_def)
  have g: "\<And>n. n < ?N \<Longrightarrow> getitem omz (str n) =
              Inr (level_array ?j2k (level_opt ?j2k chunk codec) max_load n)"
    using getitem_levels_append [OF a] .
  have i: "\<And>n. n < ?N \<Longrightarrow> g_arrays omz ! n =
              (str n, level_array ?j2k (level_opt ?j2k chunk codec) max_load n)"
    by (simp add: a nth_append)
  show ?thesis
    unfolding ms
    by (intro exI [of _ "hd multiscales"])
       (simp add: ms p g i nat_of_str_str level_array_def comp_def)
qed

theorem datasets_follow_levels_witness:
  "\<exists>ms. the (g_multiscales (the (fst (demo_convert (Some 4) True ''coronal'' ''{}'')))) = [ms]
     \<and> map ds_path (ms_datasets ms) = map str [0..<3]
     \<and> nat_of_str (ds_path (ms_datasets ms ! 2)) = 2
     \<and> (\<exists>a. g_arrays (the (fst (demo_convert (Some 4) True ''coronal'' ''{}''))) ! 2
               = (ds_path (ms_datasets ms ! 2), a)
            \<and> za_shape a = level_shape (env_Jp2k demo_env ''slice.jp2'') 2)"
proof -
  let ?omz = "the (fst (demo_convert (Some 4) True ''coronal'' ''{}''))"
  let ?mss = "the (g_multiscales ?omz)"
  have c: "convert demo_env ''slice.jp2'' None 1024 ''blosc'' ''{}'' (Some 4) True ''coronal'' True None
             = (Some ?omz, None)"
    using demo_run by (simp add: demo_convert_def)
  have m: "g_multiscales ?omz = Some ?mss"
    using demo_ms by simp
  have n: "(2::nat) < 3" by simp
  show ?thesis
    using datasets_follow_levels [OF c m] n unfolding demo_levels by blast
qed

text \<open>
  Claim C10 (channel components). In every conversion that wrote the multiscale
  descriptor, every dataset entry has a scale that starts with one 1 per leading
  channel dimension and a translation that starts with one 0 per leading channel
  dimension, each followed by the two spatial components.
\<close>

theorem channel_components_fixed:
  fixes env :: "('a, 'o, 'c) env" and omz :: "('a, 'c) group"
  assumes c: "convert env inp out chunk compressor compressor_opt max_load nii orientation
                center thickness = (Some omz, e)"
    and m: "g_multiscales omz = Some multiscales"
  shows "\<forall>ms\<in>set multiscales. \<forall>d\<in>set (ms_datasets ms).
           \<exists>s t. ds_transforms d =
                   [Scale (replicate (length (cs_comps (env_Jp2k env inp))) 1 @ s),
                    Translation (replicate (length (cs_comps (env_Jp2k env inp))) 0 @ t)]
                 \<and> length s = 2 \<and> length t = 2"
proof -
  let ?j2k = "env_Jp2k env inp"
  from convert_result [OF c m] obtain vxw vxh where
    ms: "multiscales =
             [\<lparr>ms_version = ''0.4'',
               ms_axes = multiscale_axes (j2k_ndim ?j2k - 2),
               ms_datasets = map (level_entry ?j2k (j2k_ndim ?j2k - 2) vxw vxh) [0..<cs_num_res ?j2k],
               ms_type = ''jpeg2000'',
               ms_name = [],
               ms_transforms = [Scale (replicate (nat (2 + (j2k_ndim ?j2k - 2))) 1)]\<rparr>]"
    by blast
  show ?thesis
    unfolding ms by (auto simp: level_entry_def Let_def has_channel_eq)
qed

theorem channel_components_fixed_witness:
  "\<exists>s t. ds_transforms
            (ms_datasets (hd (the (g_multiscales (the (fst (demo_convert (Some 4) True ''coronal'' ''{}''))))))
               ! 2) =
           [Scale (replicate 1 1 @ s), Translation (replicate 1 0 @ t)]
         \<and> length s = 2 \<and> length t = 2"
proof -
  let ?omz = "the (fst (demo_convert (Some 4) True ''coronal'' ''{}''))"
  let ?mss = "the (g_multiscales ?omz)"
  have c: "convert demo_env ''slice.jp2'' None 1024 ''blosc'' ''{}'' (Some 4) True ''coronal'' True None
             = (Some ?omz, None)"
    using demo_run by (simp add: demo_convert_def)
  have m: "g_multiscales ?omz = Some ?mss"
    using demo_ms by simp
  have a: "hd ?mss \<in> set ?mss" by code_simp
  have b: "ms_datasets (hd ?mss) ! 2 \<in> set (ms_datasets (hd ?mss))" by code_simp
  show ?thesis
    using channel_components_fixed [OF c m] a b demo_comps by fastforce
qed

end
